theory Spec2Isabelle
  imports
    Main
    "HOL-Library.AList"
    "HOL-Library.Multiset"
    "HOL-Library.Char_ord"
    "HOL-Library.List_Lexorder"
    "HOL-Library.Product_Lexorder"
begin

section \<open>Data model of \<^verbatim>\<open>extra_data/export.py\<close>\<close>

text \<open>
  A train (frame) is a Python \<^verbatim>\<open>dict\<close> from source names to source records; a source
  record is a \<^verbatim>\<open>dict\<close> from keys to values, with a nested \<^verbatim>\<open>dict\<close> under the key
  \<^verbatim>\<open>'metadata'\<close>.  Python dictionaries iterate in insertion order and
  \<^verbatim>\<open>next(iter(d.values()))\<close> depends on that order, so a dictionary is an association
  list: \<open>AList.update\<close> overwrites an existing key in place and appends a new key at the
  end, as \<^verbatim>\<open>d[k] = v\<close> does; \<open>map_of\<close> is the lookup.

  An array value carries its shape and its elements in row-major order.
\<close>

datatype val =
    Arr "nat list" "int list"
  | Str string
  | Num int
  | Dict "(string \<times> val) list"

type_synonym source_record = "(string \<times> val) list"

type_synonym frame = "(string \<times> source_record) list"

text \<open>What \<^verbatim>\<open>data.trains()\<close> yields, in order: pairs of train identifier and frame.\<close>

type_synonym run_data = "(int \<times> frame) list"

datatype error =
    SourceNameError
  | KeyError
  | StopIteration
  | TypeError
  | ShapeError
  | InconsistentModulesError
  | NotFoundError
  | FormatError

text \<open>
  The two attributes of a detector component that \<^verbatim>\<open>serve_files\<close> reads:
  \<^verbatim>\<open>det.detector_name\<close> and \<^verbatim>\<open>det.data.detector_sources\<close> (a set; the list gives the
  order in which the \<^verbatim>\<open>for\<close> loop of line 108 visits it).
\<close>

record detector =
  detector_name :: string
  detector_sources :: "string list"

section \<open>The transport server\<close>

text \<open>
  \<^verbatim>\<open>karabo_bridge.ServerInThread\<close> is an external library.  Its interface as the pump uses
  it: construction from an endpoint, \<^verbatim>\<open>start()\<close>, \<^verbatim>\<open>feed(frame)\<close>, \<^verbatim>\<open>stop()\<close>.  The
  record keeps what was fed, in order, and whether \<^verbatim>\<open>start\<close> and \<^verbatim>\<open>stop\<close> were called.
  The model is sequential: a \<^verbatim>\<open>feed\<close> call returns.
\<close>

record streamer =
  endpoint :: string
  dummy_timestamps :: bool
  started :: bool
  stopped :: bool
  fed :: "frame list"

definition ServerInThread :: "string \<Rightarrow> bool \<Rightarrow> streamer" where
  "ServerInThread ep dummy =
     \<lparr>endpoint = ep, dummy_timestamps = dummy, started = False, stopped = False, fed = []\<rparr>"

definition start :: "streamer \<Rightarrow> streamer" where
  "start s = s\<lparr>started := True\<rparr>"

definition feed :: "frame \<Rightarrow> streamer \<Rightarrow> streamer" where
  "feed train_data s = s\<lparr>fed := fed s @ [train_data]\<rparr>"

definition stop :: "streamer \<Rightarrow> streamer" where
  "stop s = s\<lparr>stopped := True\<rparr>"

section \<open>Appending detector modules (lines 95 to 109)\<close>

text \<open>\<^verbatim>\<open>for src in det.data.detector_sources: del train_data[src]\<close>; a missing key raises.\<close>

fun del_sources :: "string list \<Rightarrow> frame \<Rightarrow> error + frame" where
  "del_sources [] train_data = Inr train_data"
| "del_sources (src # srcs) train_data =
     (if map_of train_data src = None then Inl KeyError
      else del_sources srcs (AList.delete src train_data))"

text \<open>
  \<^verbatim>\<open>mod_data['metadata']['source'] = source_name\<close>: a \<^verbatim>\<open>KeyError\<close> when the record has
  no \<^verbatim>\<open>'metadata'\<close> entry, a \<^verbatim>\<open>TypeError\<close> when that entry is no dictionary.
\<close>

definition set_metadata_source :: "string \<Rightarrow> source_record \<Rightarrow> error + source_record" where
  "set_metadata_source source_name mod_data =
     (case map_of mod_data ''metadata'' of
        None \<Rightarrow> Inl KeyError
      | Some (Dict md) \<Rightarrow>
          Inr (AList.update ''metadata'' (Dict (AList.update ''source'' (Str source_name) md))
                 mod_data)
      | Some _ \<Rightarrow> Inl TypeError)"

text \<open>
  The body of \<^verbatim>\<open>if det is not None:\<close>.  The stacking function
  (\<^verbatim>\<open>extra_data.stacking.stack_detector_data\<close>) is a parameter.  The record \<^verbatim>\<open>mod_data\<close> is
  one object reachable under two keys (the new source name and the first module's name)
  while it is mutated, so both entries receive the mutated record; the module's entry is
  then deleted by the loop of line 108.
\<close>

definition assemble ::
  "(frame \<Rightarrow> string \<Rightarrow> error + val) \<Rightarrow> detector \<Rightarrow> frame \<Rightarrow> error + frame" where
  "assemble stack det train_data =
     (let source_name = detector_name det @ ''/DET/APPEND'';
          det_data = filter (\<lambda>(k, v). k \<in> set (detector_sources det)) train_data
      in case stack det_data ''image.data'' of
           Inl e \<Rightarrow> Inl e
         | Inr stacked \<Rightarrow>
            (case det_data of
               [] \<Rightarrow> Inl StopIteration
             | (first_src, mod_data) # _ \<Rightarrow>
                (case set_metadata_source source_name
                        (AList.update ''image.data'' stacked mod_data) of
                   Inl e \<Rightarrow> Inl e
                 | Inr mod_data' \<Rightarrow>
                     del_sources (detector_sources det)
                       (AList.update first_src mod_data'
                          (AList.update source_name mod_data' train_data)))))"

section \<open>Stacking\<close>

text \<open>
  Modelled from the spec: \<^verbatim>\<open>extra_data.stacking.stack_detector_data\<close> is not among the
  sources.  The spec's \<^verbatim>\<open>StackedArray\<close>: the per-module arrays under the data key,
  joined along a new leading module axis in increasing channel-index order, whatever the
  order of the source map; \<^verbatim>\<open>ShapeError\<close> when the per-module arrays cannot be stacked
  (an array is missing or the shapes differ; no module at all is taken as this case too),
  \<^verbatim>\<open>InconsistentModulesError\<close> when the modules disagree on a key other than the data
  key (the \<^verbatim>\<open>metadata\<close> entry names the module itself and is not compared).  The
  channel index is the number that starts the last path segment of the source name, as in
  \<^verbatim>\<open>DET/DET/1CH0:xtdf\<close>.
\<close>

definition is_digit :: "char \<Rightarrow> bool" where
  "is_digit c = (48 \<le> (of_char c :: nat) \<and> (of_char c :: nat) \<le> 57)"

definition last_segment :: "string \<Rightarrow> string" where
  "last_segment src = rev (takeWhile (\<lambda>c. c \<noteq> CHR ''/'') (rev src))"

definition channel_index :: "string \<Rightarrow> nat" where
  "channel_index src =
     foldl (\<lambda>n c. 10 * n + (of_char c - 48)) 0 (takeWhile is_digit (last_segment src))"

definition module_array :: "string \<Rightarrow> source_record \<Rightarrow> (nat list \<times> int list) option" where
  "module_array data_key mod_data =
     (case map_of mod_data data_key of Some (Arr shp xs) \<Rightarrow> Some (shp, xs) | _ \<Rightarrow> None)"

definition module_elems :: "string \<Rightarrow> source_record \<Rightarrow> int list" where
  "module_elems data_key mod_data =
     (case module_array data_key mod_data of Some (shp, xs) \<Rightarrow> xs | None \<Rightarrow> [])"

definition other_keys :: "string \<Rightarrow> source_record \<Rightarrow> (string \<times> val) list" where
  "other_keys data_key mod_data =
     filter (\<lambda>(k, v). k \<noteq> data_key \<and> k \<noteq> ''metadata'') mod_data"

definition same_entries :: "(string \<times> val) list \<Rightarrow> (string \<times> val) list \<Rightarrow> bool" where
  "same_entries a b =
     (list_all (\<lambda>(k, v). map_of b k = Some v) a \<and> list_all (\<lambda>(k, v). map_of a k = Some v) b)"

definition by_channel :: "frame \<Rightarrow> frame" where
  "by_channel det_data = sort_key (\<lambda>(src, mod_data). channel_index src) det_data"

definition stack_detector_data :: "frame \<Rightarrow> string \<Rightarrow> error + val" where
  "stack_detector_data det_data data_key =
     (case by_channel det_data of
        [] \<Rightarrow> Inl ShapeError
      | (src0, mod0) # mods \<Rightarrow>
          if list_ex (\<lambda>(src, mod_data).
                 \<not> same_entries (other_keys data_key mod_data) (other_keys data_key mod0)) mods
          then Inl InconsistentModulesError
          else
            (case module_array data_key mod0 of
               None \<Rightarrow> Inl ShapeError
             | Some (shp, xs0) \<Rightarrow>
                 if list_all (\<lambda>(src, mod_data).
                       map_option fst (module_array data_key mod_data) = Some shp) mods
                 then Inr (Arr (Suc (length mods) # shp)
                        (concat (map (\<lambda>(src, mod_data). module_elems data_key mod_data)
                           ((src0, mod0) # mods))))
                 else Inl ShapeError))"

text \<open>
  The derived name in the spec's words: the channel segment, the last path segment of a
  module's source name, is replaced by a fixed tag.
\<close>

definition replace_channel_segment :: "string \<Rightarrow> string \<Rightarrow> string" where
  "replace_channel_segment src tag = rev (dropWhile (\<lambda>c. c \<noteq> CHR ''/'') (rev src)) @ tag"

section \<open>The streaming loop (lines 90 to 111)\<close>

text \<open>
  The loop over \<^verbatim>\<open>data.trains()\<close>.  An exception raised in the body leaves the loop; the
  result is the server as it is then, and the exception if there is one.
\<close>

fun pump ::
  "(frame \<Rightarrow> string \<Rightarrow> error + val) \<Rightarrow> detector option \<Rightarrow> run_data \<Rightarrow> streamer
     \<Rightarrow> streamer \<times> error option" where
  "pump stack det [] s = (s, None)"
| "pump stack det ((tid, train_data) # rest) s =
     (if train_data = [] then pump stack det rest s
      else case det of
             None \<Rightarrow> pump stack det rest (feed train_data s)
           | Some d \<Rightarrow>
               (case assemble stack d train_data of
                  Inl e \<Rightarrow> (s, Some e)
                | Inr train_data' \<Rightarrow> pump stack det rest (feed train_data' s)))"

text \<open>The frames of a run that have a non-empty source map.\<close>

definition non_empty :: "run_data \<Rightarrow> run_data" where
  "non_empty trains = filter (\<lambda>(tid, train_data). train_data \<noteq> []) trains"

section \<open>Detector detection (lines 76 to 84)\<close>

text \<open>
  The loop \<^verbatim>\<open>for detector in [AGIPD1M, DSSC1M, LPD1M]\<close>: the component classes of
  \<^verbatim>\<open>extra_data.components\<close> are parameters, each a constructor that returns a detector
  or raises.  Only \<^verbatim>\<open>SourceNameError\<close> is caught; the first constructor that returns
  ends the loop.
\<close>

fun try_detectors ::
  "(run_data \<Rightarrow> error + detector) list \<Rightarrow> run_data \<Rightarrow> error + detector option" where
  "try_detectors [] data = Inr None"
| "try_detectors (detector # rest) data =
     (case detector data of
        Inr det \<Rightarrow> Inr (Some det)
      | Inl SourceNameError \<Rightarrow> try_detectors rest data
      | Inl e \<Rightarrow> Inl e)"

section \<open>Opening the data (lines 69 to 72)\<close>

text \<open>
  Modelled from the spec: \<^verbatim>\<open>RunDirectory\<close> and \<^verbatim>\<open>H5File\<close> of \<^verbatim>\<open>extra_data.reader\<close> are
  not among the sources.  The spec's \<^verbatim>\<open>open\<close>: \<^verbatim>\<open>NotFoundError\<close> when the path does not
  exist, \<^verbatim>\<open>FormatError\<close> when it is neither a recognizable single file nor a directory of
  recognizable files.  A path is absent, a file or a directory; what is there is
  recognizable as the data of a run or it is not.
\<close>

datatype fsnode = File "run_data option" | Directory "run_data option"

type_synonym filesystem = "string \<Rightarrow> fsnode option"

definition isdir :: "filesystem \<Rightarrow> string \<Rightarrow> bool" where
  "isdir fs path = (case fs path of Some (Directory content) \<Rightarrow> True | _ \<Rightarrow> False)"

definition RunDirectory :: "filesystem \<Rightarrow> string \<Rightarrow> error + run_data" where
  "RunDirectory fs path =
     (case fs path of
        None \<Rightarrow> Inl NotFoundError
      | Some (Directory (Some data)) \<Rightarrow> Inr data
      | Some _ \<Rightarrow> Inl FormatError)"

definition H5File :: "filesystem \<Rightarrow> string \<Rightarrow> error + run_data" where
  "H5File fs path =
     (case fs path of
        None \<Rightarrow> Inl NotFoundError
      | Some (File (Some data)) \<Rightarrow> Inr data
      | Some _ \<Rightarrow> Inl FormatError)"

section \<open>\<^verbatim>\<open>serve_files\<close>\<close>

text \<open>
  What \<^verbatim>\<open>serve_files\<close> takes from outside this file: the file system, the selection
  \<^verbatim>\<open>data.select\<close>, the three detector components, the stacking function and
  \<^verbatim>\<open>find_infiniband_ip\<close>.
\<close>

record env =
  fs :: filesystem
  select :: "string \<Rightarrow> string \<Rightarrow> run_data \<Rightarrow> run_data"
  AGIPD1M :: "run_data \<Rightarrow> error + detector"
  DSSC1M :: "run_data \<Rightarrow> error + detector"
  LPD1M :: "run_data \<Rightarrow> error + detector"
  stack_data :: "frame \<Rightarrow> string \<Rightarrow> error + val"
  find_infiniband_ip :: string

text \<open>
  How a call ends: the exception that left it, if any, and the server, if one was
  created, as the call left it.
\<close>

record outcome =
  raised :: "error option"
  server :: "streamer option"

text \<open>Lines 87 to 113: start the server, run the loop, stop the server.\<close>

definition stream ::
  "(frame \<Rightarrow> string \<Rightarrow> error + val) \<Rightarrow> detector option \<Rightarrow> string \<Rightarrow> bool \<Rightarrow> run_data
     \<Rightarrow> outcome" where
  "stream stack_fn det ep dummy data =
     (case pump stack_fn det data (start (ServerInThread ep dummy)) of
        (s, Some e) \<Rightarrow> \<lparr>raised = Some e, server = Some s\<rparr>
      | (s, None) \<Rightarrow> \<lparr>raised = None, server = Some (stop s)\<rparr>)"

text \<open>The port is the text that the f-string of line 86 renders.\<close>

definition serve_files ::
  "env \<Rightarrow> string \<Rightarrow> string \<Rightarrow> string \<Rightarrow> string \<Rightarrow> bool \<Rightarrow> bool \<Rightarrow> bool \<Rightarrow> outcome" where
  "serve_files e path port source_glob key_glob append_detector_modules dummy use_infiniband =
     (case (if isdir (fs e) path then RunDirectory (fs e) path else H5File (fs e) path) of
        Inl err \<Rightarrow> \<lparr>raised = Some err, server = None\<rparr>
      | Inr data0 \<Rightarrow>
          (let data = select e source_glob key_glob data0 in
           case (if append_detector_modules
                 then try_detectors [AGIPD1M e, DSSC1M e, LPD1M e] data
                 else Inr None) of
             Inl err \<Rightarrow> \<lparr>raised = Some err, server = None\<rparr>
           | Inr det \<Rightarrow>
               stream (stack_data e) det
                 (''tcp://'' @ (if use_infiniband then find_infiniband_ip e else ''*'')
                    @ '':'' @ port)
                 dummy data))"

section \<open>The calls on the server in their order, and interrupts\<close>

text \<open>
  The server record above keeps what was fed and two flags, not the order of the calls.
  Here the calls that lines 87, 88, 111 and 113 make on the server are kept as a list, in
  the order in which they are made.

  Python raises \<^verbatim>\<open>KeyboardInterrupt\<close> in the main thread when the interrupt signal
  arrives, at whatever statement is running then; it is no \<^verbatim>\<open>Exception\<close>.  Neither
  \<^verbatim>\<open>serve_files\<close> nor \<^verbatim>\<open>main\<close> (lines 142 to 149) has a handler or a \<^verbatim>\<open>finally\<close>, so
  it leaves both like any other exception.  When the signal arrives is a parameter of
  the loop: \<^verbatim>\<open>Some n\<close> when it arrives in the loop after \<open>n\<close> trains have been taken from
  \<^verbatim>\<open>data.trains()\<close> and dealt with (so before line 113 when \<open>n\<close> is the number of
  trains), \<^verbatim>\<open>None\<close> when it does not arrive.  A signal that arrives after more trains than
  the run has arrives after the loop and line 113.
\<close>

datatype call = Create string bool | Start | Feed frame | Stop

datatype exn = Exception error | KeyboardInterrupt

fun pump_calls ::
  "(frame \<Rightarrow> string \<Rightarrow> error + val) \<Rightarrow> detector option \<Rightarrow> nat option \<Rightarrow> run_data \<Rightarrow> call list
     \<Rightarrow> call list \<times> exn option" where
  "pump_calls stack det intr [] calls =
     (if intr = Some 0 then (calls, Some KeyboardInterrupt) else (calls, None))"
| "pump_calls stack det intr ((tid, train_data) # rest) calls =
     (if intr = Some 0 then (calls, Some KeyboardInterrupt)
      else if train_data = [] then pump_calls stack det (map_option (\<lambda>n. n - 1) intr) rest calls
      else case det of
             None \<Rightarrow>
               pump_calls stack det (map_option (\<lambda>n. n - 1) intr) rest
                 (calls @ [Feed train_data])
           | Some d \<Rightarrow>
               (case assemble stack d train_data of
                  Inl e \<Rightarrow> (calls, Some (Exception e))
                | Inr train_data' \<Rightarrow>
                    pump_calls stack det (map_option (\<lambda>n. n - 1) intr) rest
                      (calls @ [Feed train_data'])))"

text \<open>Lines 87 to 113: create and start the server, run the loop, stop the server.\<close>

definition stream_calls ::
  "(frame \<Rightarrow> string \<Rightarrow> error + val) \<Rightarrow> detector option \<Rightarrow> string \<Rightarrow> bool \<Rightarrow> nat option \<Rightarrow>
   run_data \<Rightarrow> call list \<times> exn option" where
  "stream_calls stack_fn det ep dummy intr data =
     (case pump_calls stack_fn det intr data [Create ep dummy, Start] of
        (calls, Some x) \<Rightarrow> (calls, Some x)
      | (calls, None) \<Rightarrow> (calls @ [Stop], None))"

text \<open>\<^verbatim>\<open>serve_files\<close> once more, with the calls it makes and the exception that leaves it.\<close>

definition serve_files_calls ::
  "env \<Rightarrow> string \<Rightarrow> string \<Rightarrow> string \<Rightarrow> string \<Rightarrow> bool \<Rightarrow> bool \<Rightarrow> bool \<Rightarrow> nat option \<Rightarrow>
   call list \<times> exn option" where
  "serve_files_calls e path port source_glob key_glob append_detector_modules dummy
     use_infiniband intr =
     (case (if isdir (fs e) path then RunDirectory (fs e) path else H5File (fs e) path) of
        Inl err \<Rightarrow> ([], Some (Exception err))
      | Inr data0 \<Rightarrow>
          (let data = select e source_glob key_glob data0 in
           case (if append_detector_modules
                 then try_detectors [AGIPD1M e, DSSC1M e, LPD1M e] data
                 else Inr None) of
             Inl err \<Rightarrow> ([], Some (Exception err))
           | Inr det \<Rightarrow>
               stream_calls (stack_data e) det
                 (''tcp://'' @ (if use_infiniband then find_infiniband_ip e else ''*'')
                    @ '':'' @ port)
                 dummy intr data))"

section \<open>\<^verbatim>\<open>extra_data/h5index.py\<close>\<close>

text \<open>
  \<^verbatim>\<open>grp.visititems(visitor)\<close> calls the visitor with the path and the object of everything
  reachable from the group; a group is given here by that sequence of calls.  A dataset
  has a shape and the text of its dtype.  The rows that \<^verbatim>\<open>sorted\<close> compares are lists
  \<^verbatim>\<open>[path, shape, dtype]\<close>, compared item by item: the lexicographic order of the triple,
  with strings and shape tuples themselves in lexicographic order.  The CSV writer gets
  the rows one at a time; standard output is the list of rows written.
\<close>

datatype h5item = Dataset "nat list" string | Group

type_synonym dataset_row = "string \<times> nat list \<times> string"

datatype cell = Text string | Shape "nat list"

fun visitor :: "dataset_row list \<Rightarrow> string \<times> h5item \<Rightarrow> dataset_row list" where
  "visitor all_datasets (path, Dataset shp dtype) = all_datasets @ [(path, shp, dtype)]"
| "visitor all_datasets (path, Group) = all_datasets"

definition visititems :: "(string \<times> h5item) list \<Rightarrow> dataset_row list" where
  "visititems grp = foldl visitor [] grp"

definition writerow :: "dataset_row \<Rightarrow> cell list" where
  "writerow r = (case r of (path, shp, dtype) \<Rightarrow> [Text path, Shape shp, Text dtype])"

definition hdf5_datasets :: "(string \<times> h5item) list \<Rightarrow> cell list list" where
  "hdf5_datasets grp =
     [Text ''path'', Text ''shape'', Text ''dtype''] # map writerow (sort (visititems grp))"

text \<open>The datasets among the objects of a group, as the claim speaks of them.\<close>

fun datasets_of :: "(string \<times> h5item) list \<Rightarrow> dataset_row list" where
  "datasets_of [] = []"
| "datasets_of ((path, Dataset shp dtype) # rest) = (path, shp, dtype) # datasets_of rest"
| "datasets_of ((path, Group) # rest) = datasets_of rest"

section \<open>Frames as objects in a store\<close>

text \<open>
  Lines 103 to 109 mutate dictionaries in place, and \<^verbatim>\<open>mod_data\<close> is reachable under two
  keys of the frame while that happens.  To say which objects are written, the
  dictionaries and arrays are objects of a store, a list of objects in which an address is
  an index and a new object is appended at the end.  A dictionary slot holds the address
  of a dictionary or of an array, or an immutable value (a string, a number; the values
  inside a \<^verbatim>\<open>metadata\<close> dictionary are kept as values, the loop never assigns into
  them).
\<close>

type_synonym addr = nat

datatype slot = Ref addr | Imm val

datatype obj =
    DictObj "(string \<times> slot) list"
  | ArrObj "nat list" "int list"

type_synonym store = "obj list"

definition get_dict :: "store \<Rightarrow> addr \<Rightarrow> (string \<times> slot) list option" where
  "get_dict h a =
     (if a < length h then (case h ! a of DictObj d \<Rightarrow> Some d | ArrObj shp xs \<Rightarrow> None)
      else None)"

text \<open>\<^verbatim>\<open>d[k]\<close>, \<^verbatim>\<open>d[k] = v\<close> and \<^verbatim>\<open>del d[k]\<close> on the object at an address.\<close>

definition getitem :: "addr \<Rightarrow> string \<Rightarrow> store \<Rightarrow> error + slot" where
  "getitem a k h =
     (case get_dict h a of
        None \<Rightarrow> Inl TypeError
      | Some d \<Rightarrow> (case map_of d k of None \<Rightarrow> Inl KeyError | Some c \<Rightarrow> Inr c))"

definition setitem :: "addr \<Rightarrow> string \<Rightarrow> slot \<Rightarrow> store \<Rightarrow> error + store" where
  "setitem a k c h =
     (case get_dict h a of
        None \<Rightarrow> Inl TypeError
      | Some d \<Rightarrow> Inr (h[a := DictObj (AList.update k c d)]))"

definition delitem :: "addr \<Rightarrow> string \<Rightarrow> store \<Rightarrow> error + store" where
  "delitem a k h =
     (case get_dict h a of
        None \<Rightarrow> Inl TypeError
      | Some d \<Rightarrow>
          (if map_of d k = None then Inl KeyError
           else Inr (h[a := DictObj (AList.delete k d)])))"

text \<open>A value becomes an object of its own when it is an array or a dictionary.\<close>

definition store_val :: "val \<Rightarrow> store \<Rightarrow> slot \<times> store" where
  "store_val v h =
     (case v of
        Arr shp xs \<Rightarrow> (Ref (length h), h @ [ArrObj shp xs])
      | Dict d \<Rightarrow> (Ref (length h), h @ [DictObj (map (\<lambda>(k, v). (k, Imm v)) d)])
      | Str s \<Rightarrow> (Imm v, h)
      | Num n \<Rightarrow> (Imm v, h))"

text \<open>
  Modelled from the spec: \<^verbatim>\<open>data.trains()\<close> (\<^verbatim>\<open>extra_data.reader\<close>) is not among the
  sources.  The spec's lifecycle: a frame and its contents are created fresh per iteration
  step by the frame source.  So the frame read from the files is built from new objects:
  one for every array and every \<^verbatim>\<open>metadata\<close> dictionary, one for every source record,
  one for the frame.
\<close>

fun store_items :: "source_record \<Rightarrow> store \<Rightarrow> (string \<times> slot) list \<times> store" where
  "store_items [] h = ([], h)"
| "store_items ((k, v) # kvs) h =
     (case store_val v h of
        (c, h1) \<Rightarrow> (case store_items kvs h1 of (cs, h2) \<Rightarrow> ((k, c) # cs, h2)))"

definition store_record :: "source_record \<Rightarrow> store \<Rightarrow> slot \<times> store" where
  "store_record r h =
     (case store_items r h of (cs, h1) \<Rightarrow> (Ref (length h1), h1 @ [DictObj cs]))"

fun store_sources :: "frame \<Rightarrow> store \<Rightarrow> (string \<times> slot) list \<times> store" where
  "store_sources [] h = ([], h)"
| "store_sources ((src, r) # srcs) h =
     (case store_record r h of
        (c, h1) \<Rightarrow> (case store_sources srcs h1 of (cs, h2) \<Rightarrow> ((src, c) # cs, h2)))"

definition new_frame :: "frame \<Rightarrow> store \<Rightarrow> addr \<times> store" where
  "new_frame f h =
     (case store_sources f h of (cs, h1) \<Rightarrow> (length h1, h1 @ [DictObj cs]))"

text \<open>Reading the objects back as values.\<close>

definition read_slot :: "store \<Rightarrow> slot \<Rightarrow> val option" where
  "read_slot h c =
     (case c of
        Imm v \<Rightarrow> Some v
      | Ref a \<Rightarrow>
          (if a < length h then
             (case h ! a of
                ArrObj shp xs \<Rightarrow> Some (Arr shp xs)
              | DictObj d \<Rightarrow>
                  map_option Dict
                    (those (map (\<lambda>(k, c). case c of Imm v \<Rightarrow> Some (k, v) | Ref b \<Rightarrow> None) d)))
           else None))"

definition read_record :: "store \<Rightarrow> slot \<Rightarrow> source_record option" where
  "read_record h c =
     (case c of
        Imm v \<Rightarrow> None
      | Ref a \<Rightarrow>
          (case get_dict h a of
             None \<Rightarrow> None
           | Some d \<Rightarrow> those (map (\<lambda>(k, c). map_option (Pair k) (read_slot h c)) d)))"

definition read_sources :: "store \<Rightarrow> (string \<times> slot) list \<Rightarrow> frame option" where
  "read_sources h d = those (map (\<lambda>(src, c). map_option (Pair src) (read_record h c)) d)"

definition read_frame :: "store \<Rightarrow> addr \<Rightarrow> frame option" where
  "read_frame h a = (case get_dict h a of None \<Rightarrow> None | Some d \<Rightarrow> read_sources h d)"

text \<open>
  \<^verbatim>\<open>for src in det.data.detector_sources: del train_data[src]\<close>.  The store at the moment
  of an exception is returned with it.
\<close>

fun del_sources_store :: "string list \<Rightarrow> addr \<Rightarrow> store \<Rightarrow> error option \<times> store" where
  "del_sources_store [] train_data h = (None, h)"
| "del_sources_store (src # srcs) train_data h =
     (case delitem train_data src h of
        Inl e \<Rightarrow> (Some e, h)
      | Inr h1 \<Rightarrow> del_sources_store srcs train_data h1)"

text \<open>
  The body of \<^verbatim>\<open>if det is not None:\<close> on the frame object at address \<^verbatim>\<open>train_data\<close>.
  \<^verbatim>\<open>det_data\<close> is a new dictionary holding the same record objects.  The stacking
  function reads the store and returns a new array; that it writes nothing is part of
  its type here.
\<close>

definition assemble_store ::
  "(store \<Rightarrow> (string \<times> slot) list \<Rightarrow> string \<Rightarrow> error + val) \<Rightarrow> detector \<Rightarrow> addr \<Rightarrow> store \<Rightarrow>
   error option \<times> store" where
  "assemble_store stack det train_data h =
     (let source_name = detector_name det @ ''/DET/APPEND'' in
      case get_dict h train_data of
        None \<Rightarrow> (Some TypeError, h)
      | Some items \<Rightarrow>
         (let det_data = filter (\<lambda>(k, v). k \<in> set (detector_sources det)) items in
          case stack h det_data ''image.data'' of
            Inl e \<Rightarrow> (Some e, h)
          | Inr stacked_val \<Rightarrow>
             (case store_val stacked_val h of
                (stacked, h1) \<Rightarrow>
                 (case det_data of
                    [] \<Rightarrow> (Some StopIteration, h1)
                  | (first_src, mod_data) # _ \<Rightarrow>
                     (case setitem train_data source_name mod_data h1 of
                        Inl e \<Rightarrow> (Some e, h1)
                      | Inr h2 \<Rightarrow>
                         (case mod_data of
                            Imm v \<Rightarrow> (Some TypeError, h2)
                          | Ref m \<Rightarrow>
                             (case setitem m ''image.data'' stacked h2 of
                                Inl e \<Rightarrow> (Some e, h2)
                              | Inr h3 \<Rightarrow>
                                 (case getitem m ''metadata'' h3 of
                                    Inl e \<Rightarrow> (Some e, h3)
                                  | Inr (Imm v) \<Rightarrow> (Some TypeError, h3)
                                  | Inr (Ref md) \<Rightarrow>
                                     (case setitem md ''source'' (Imm (Str source_name)) h3 of
                                        Inl e \<Rightarrow> (Some e, h3)
                                      | Inr h4 \<Rightarrow>
                                          del_sources_store (detector_sources det)
                                            train_data h4)))))))))"

text \<open>
  The loop of lines 90 to 111 on the store: every step takes a new frame from
  \<^verbatim>\<open>data.trains()\<close>; what is fed is the frame object.
\<close>

fun pump_store ::
  "(store \<Rightarrow> (string \<times> slot) list \<Rightarrow> string \<Rightarrow> error + val) \<Rightarrow> detector option \<Rightarrow> run_data \<Rightarrow>
   store \<Rightarrow> addr list \<Rightarrow> store \<times> addr list \<times> error option" where
  "pump_store stack det [] h fed_frames = (h, fed_frames, None)"
| "pump_store stack det ((tid, file_frame) # trains) h fed_frames =
     (case new_frame file_frame h of
        (train_data, h1) \<Rightarrow>
         (if get_dict h1 train_data = Some [] then pump_store stack det trains h1 fed_frames
          else
            (case det of
               None \<Rightarrow> pump_store stack det trains h1 (fed_frames @ [train_data])
             | Some d \<Rightarrow>
                (case assemble_store stack d train_data h1 of
                   (Some e, h2) \<Rightarrow> (h2, fed_frames, Some e)
                 | (None, h2) \<Rightarrow> pump_store stack det trains h2 (fed_frames @ [train_data])))))"

text \<open>The stacking function of the package on the store: it reads the module records.\<close>

definition stack_store :: "store \<Rightarrow> (string \<times> slot) list \<Rightarrow> string \<Rightarrow> error + val" where
  "stack_store h det_data data_key =
     (case read_sources h det_data of
        None \<Rightarrow> Inl TypeError
      | Some mods \<Rightarrow> stack_detector_data mods data_key)"

text \<open>
  What the claim about the frame source's data needs: from an address on, the objects
  refer to objects from that address on only.
\<close>

definition slot_from :: "nat \<Rightarrow> slot \<Rightarrow> bool" where
  "slot_from n c = (case c of Ref a \<Rightarrow> n \<le> a | Imm v \<Rightarrow> True)"

definition obj_from :: "nat \<Rightarrow> obj \<Rightarrow> bool" where
  "obj_from n ob =
     (case ob of
        DictObj d \<Rightarrow> list_all (\<lambda>(k, c). slot_from n c) d
      | ArrObj shp xs \<Rightarrow> True)"

definition keeps :: "store \<Rightarrow> store \<Rightarrow> bool" where
  "keeps h0 h = (take (length h0) h = h0 \<and> list_all (obj_from (length h0)) (drop (length h0) h))"

section \<open>Example data\<close>

text \<open>
  A detector \<^verbatim>\<open>DET\<close> with the two module sources of the spec's scenario, a module record
  with an array under \<^verbatim>\<open>image.data\<close> and its metadata, and frames that hold both modules,
  module 1 inserted first.
\<close>

definition DET :: detector where
  "DET = \<lparr>detector_name = ''DET'',
           detector_sources = [''DET/DET/0CH0:xtdf'', ''DET/DET/1CH0:xtdf'']\<rparr>"

definition module_record :: "string \<Rightarrow> nat list \<Rightarrow> int list \<Rightarrow> source_record" where
  "module_record src shp xs =
     [(''image.data'', Arr shp xs), (''metadata'', Dict [(''source'', Str src)])]"

definition two_modules :: "nat list \<Rightarrow> int list \<Rightarrow> nat list \<Rightarrow> int list \<Rightarrow> frame" where
  "two_modules shp0 xs0 shp1 xs1 =
     [(''DET/DET/1CH0:xtdf'', module_record ''DET/DET/1CH0:xtdf'' shp1 xs1),
      (''DET/DET/0CH0:xtdf'', module_record ''DET/DET/0CH0:xtdf'' shp0 xs0)]"

definition stacked_frame :: "nat list \<Rightarrow> int list \<Rightarrow> frame" where
  "stacked_frame shp xs =
     [(''DET/DET/APPEND'',
       [(''image.data'', Arr shp xs), (''metadata'', Dict [(''source'', Str ''DET/DET/APPEND'')])])]"

definition server0 :: streamer where
  "server0 = start (ServerInThread ''tcp://*:4545'' False)"

text \<open>Three trains, the second one empty after filtering.\<close>

definition run_with_gap :: run_data where
  "run_with_gap =
     [(100, two_modules [2] [1, 2] [2] [3, 4]), (101, []), (102, two_modules [2] [5, 6] [2] [7, 8])]"

text \<open>Two trains; in the first one the modules have arrays of different shapes.\<close>

definition run_shape_first :: run_data where
  "run_shape_first =
     [(100, two_modules [2] [1, 2] [1] [3]), (101, two_modules [2] [5, 6] [2] [7, 8])]"

text \<open>Three trains; in the second one the modules have arrays of different shapes.\<close>

definition run_shape_second :: run_data where
  "run_shape_second =
     [(100, two_modules [2] [1, 2] [2] [3, 4]),
      (101, two_modules [2] [5, 6] [3] [7, 8, 9]),
      (102, two_modules [2] [10, 11] [2] [12, 13])]"

text \<open>
  The two modules with a timestamp in their metadata, 10 for module 0 and 11 for module
  1; the same source map once with module 1 inserted first and once with module 0.
\<close>

definition stamped_record :: "string \<Rightarrow> int list \<Rightarrow> int \<Rightarrow> source_record" where
  "stamped_record src xs ts =
     [(''image.data'', Arr [2] xs),
      (''metadata'', Dict [(''source'', Str src), (''timestamp.tid'', Num ts)])]"

definition frame_module1_first :: frame where
  "frame_module1_first =
     [(''DET/DET/1CH0:xtdf'', stamped_record ''DET/DET/1CH0:xtdf'' [3, 4] 11),
      (''DET/DET/0CH0:xtdf'', stamped_record ''DET/DET/0CH0:xtdf'' [1, 2] 10)]"

definition frame_module0_first :: frame where
  "frame_module0_first =
     [(''DET/DET/0CH0:xtdf'', stamped_record ''DET/DET/0CH0:xtdf'' [1, 2] 10),
      (''DET/DET/1CH0:xtdf'', stamped_record ''DET/DET/1CH0:xtdf'' [3, 4] 11)]"

text \<open>Two trains; the second one lacks the data of module 1.\<close>

definition run_missing_module :: run_data where
  "run_missing_module =
     [(100, two_modules [2] [1, 2] [2] [3, 4]),
      (101, [(''DET/DET/0CH0:xtdf'', module_record ''DET/DET/0CH0:xtdf'' [2] [5, 6])])]"

text \<open>
  Detector components for the examples: one that finds none of its sources in the data,
  and one that finds a given detector.
\<close>

definition not_in_data :: "run_data \<Rightarrow> error + detector" where
  "not_in_data data = Inl SourceNameError"

definition found :: "detector \<Rightarrow> run_data \<Rightarrow> error + detector" where
  "found det data = Inr det"

text \<open>
  An environment for the examples: a run directory \<^verbatim>\<open>/data/run\<close> with the given trains, a
  file \<^verbatim>\<open>/data/notes.txt\<close> that is no HDF5 file, and nothing else.  The selection keeps
  everything, as the default patterns \<^verbatim>\<open>'*'\<close> do.
\<close>

definition example_env :: "run_data \<Rightarrow> (run_data \<Rightarrow> error + detector) \<Rightarrow> env" where
  "example_env data agipd =
     \<lparr>fs = (\<lambda>path. if path = ''/data/run'' then Some (Directory (Some data))
                   else if path = ''/data/notes.txt'' then Some (File None)
                   else None),
      select = (\<lambda>source_glob key_glob d. d),
      AGIPD1M = agipd,
      DSSC1M = not_in_data,
      LPD1M = not_in_data,
      stack_data = stack_detector_data,
      find_infiniband_ip = ''10.0.0.1''\<rparr>"

text \<open>A file with two datasets in a group and one at the top, as the visitor meets them.\<close>

definition example_group :: "(string \<times> h5item) list" where
  "example_group =
     [(''b'', Group), (''b/y'', Dataset [3, 4] ''<f4''), (''b/x'', Dataset [] ''<i8''),
      (''a'', Dataset [10] ''<u2'')]"

text \<open>
  A store that already holds the objects of one frame (a frame kept by the reader, say),
  and a run of one train with two modules, module 1 inserted first.
\<close>

definition cached_store :: store where
  "cached_store = snd (new_frame frame_module0_first [])"

definition run_one_train :: run_data where
  "run_one_train = [(10, frame_module1_first)]"

text \<open>
  The store after that run has been streamed with append mode: the objects 0 to 6 are
  those of the store before, 7 to 13 are the objects of the new frame (9 is the record of
  module 1, the first one in the frame, now the record of the synthetic source; 13 is the
  frame), 14 is the stacked array.
\<close>

definition store_after_one_train :: store where
  "store_after_one_train =
     [ArrObj [2] [1, 2],
      DictObj [(''source'', Imm (Str ''DET/DET/0CH0:xtdf'')), (''timestamp.tid'', Imm (Num 10))],
      DictObj [(''image.data'', Ref 0), (''metadata'', Ref 1)],
      ArrObj [2] [3, 4],
      DictObj [(''source'', Imm (Str ''DET/DET/1CH0:xtdf'')), (''timestamp.tid'', Imm (Num 11))],
      DictObj [(''image.data'', Ref 3), (''metadata'', Ref 4)],
      DictObj [(''DET/DET/0CH0:xtdf'', Ref 2), (''DET/DET/1CH0:xtdf'', Ref 5)],
      ArrObj [2] [3, 4],
      DictObj [(''source'', Imm (Str ''DET/DET/APPEND'')), (''timestamp.tid'', Imm (Num 11))],
      DictObj [(''image.data'', Ref 14), (''metadata'', Ref 8)],
      ArrObj [2] [1, 2],
      DictObj [(''source'', Imm (Str ''DET/DET/0CH0:xtdf'')), (''timestamp.tid'', Imm (Num 10))],
      DictObj [(''image.data'', Ref 10), (''metadata'', Ref 11)],
      DictObj [(''DET/DET/APPEND'', Ref 9)],
      ArrObj [2, 2] [1, 2, 3, 4]]"

section \<open>Properties of the streaming loop\<close>

lemma pump_no_detector:
  "pump stack None trains s = (s\<lparr>fed := fed s @ map snd (non_empty trains)\<rparr>, None)"
  by (induction trains arbitrary: s) (auto simp: non_empty_def feed_def)

lemma pump_fed_ok:
  "pump stack det trains s = (s', None) \<Longrightarrow>
   \<exists>out. s' = s\<lparr>fed := fed s @ out\<rparr> \<and>
     list_all2 (\<lambda>(tid, train_data) published.
        case det of None \<Rightarrow> published = train_data
        | Some d \<Rightarrow> assemble stack d train_data = Inr published) (non_empty trains) out"
proof (induction trains arbitrary: s)
  case Nil
  then show ?case by (simp add: non_empty_def)
next
  case (Cons p trains)
  obtain tid train_data where p: "p = (tid, train_data)" by (cases p)
  show ?case
  proof (cases "train_data = []")
    case True
    with Cons p show ?thesis by (simp add: non_empty_def)
  next
    case False
    show ?thesis
    proof (cases det)
      case None
      with Cons.prems p False have "pump stack det trains (feed train_data s) = (s', None)"
        by simp
      from Cons.IH [OF this] obtain out where
        "s' = (feed train_data s)\<lparr>fed := fed (feed train_data s) @ out\<rparr>"
        "list_all2 (\<lambda>(tid, train_data) published.
           case det of None \<Rightarrow> published = train_data
           | Some d \<Rightarrow> assemble stack d train_data = Inr published) (non_empty trains) out"
        by blast
      with p False None show ?thesis
        by (intro exI [of _ "train_data # out"]) (simp add: non_empty_def feed_def)
    next
      case (Some d)
      with Cons.prems p False obtain td' where
        a: "assemble stack d train_data = Inr td'" and
        r: "pump stack det trains (feed td' s) = (s', None)"
        by (auto split: sum.splits)
      from Cons.IH [OF r] obtain out where
        "s' = (feed td' s)\<lparr>fed := fed (feed td' s) @ out\<rparr>"
        "list_all2 (\<lambda>(tid, train_data) published.
           case det of None \<Rightarrow> published = train_data
           | Some d \<Rightarrow> assemble stack d train_data = Inr published) (non_empty trains) out"
        by blast
      with p False Some a show ?thesis
        by (intro exI [of _ "td' # out"]) (simp add: non_empty_def feed_def)
    qed
  qed
qed

lemma sorted_wrt_non_empty:
  "sorted_wrt (<) (map fst trains) \<Longrightarrow> sorted_wrt (<) (map fst (non_empty trains))"
  unfolding non_empty_def by (induction trains) auto

lemma pump_append:
  "pump stack det (before @ after) s =
     (case pump stack det before s of
        (s1, None) \<Rightarrow> pump stack det after s1
      | (s1, Some e) \<Rightarrow> (s1, Some e))"
  by (induction before arbitrary: s) (auto split: option.splits sum.splits)

lemma pump_keeps_flags:
  "pump stack det trains s = (s', err) \<Longrightarrow>
   started s' = started s \<and> stopped s' = stopped s \<and> endpoint s' = endpoint s"
proof (induction trains arbitrary: s)
  case Nil
  then show ?case by simp
next
  case (Cons p trains)
  obtain tid train_data where p: "p = (tid, train_data)" by (cases p)
  show ?case
  proof (cases "train_data = []")
    case True
    with Cons p show ?thesis by simp
  next
    case False
    show ?thesis
    proof (cases det)
      case None
      with Cons.prems p False have "pump stack det trains (feed train_data s) = (s', err)"
        by simp
      from Cons.IH [OF this] show ?thesis by (simp add: feed_def)
    next
      case (Some d)
      show ?thesis
      proof (cases "assemble stack d train_data")
        case (Inl e)
        with Cons.prems p False Some show ?thesis by simp
      next
        case (Inr td')
        with Cons.prems p False Some have "pump stack det trains (feed td' s) = (s', err)"
          by simp
        from Cons.IH [OF this] show ?thesis by (simp add: feed_def)
      qed
    qed
  qed
qed

text \<open>
  C1 (as amended).  In a run whose train identifiers increase strictly, when append mode
  is off, or when the loop ends without an exception, the loop feeds exactly one frame for
  each non-empty frame of the run and nothing else, in the order of the run and so in
  strictly increasing train-identifier order: the frame itself without append mode, and
  what the assembly makes of it with append mode.  A frame with an empty source map is
  skipped.
\<close>

theorem pump_feeds_non_empty_in_order:
  assumes "sorted_wrt (<) (map fst trains)"
    and "det = None \<or> snd (pump stack det trains s) = None"
  shows "\<exists>out. pump stack det trains s = (s\<lparr>fed := fed s @ out\<rparr>, None) \<and>
           length out = length (non_empty trains) \<and>
           list_all2 (\<lambda>(tid, train_data) published.
              train_data \<noteq> [] \<and>
              (case det of None \<Rightarrow> published = train_data
               | Some d \<Rightarrow> assemble stack d train_data = Inr published))
             (non_empty trains) out \<and>
           sorted_wrt (<) (map fst (non_empty trains)) \<and>
           (det = None \<longrightarrow> out = map snd (non_empty trains) \<and> [] \<notin> set out)"
proof -
  from assms(2) have "snd (pump stack det trains s) = None"
    by (auto simp: pump_no_detector)
  then obtain s' where run: "pump stack det trains s = (s', None)"
    by (cases "pump stack det trains s") auto
  from pump_fed_ok [OF run] obtain out where
    s': "s' = s\<lparr>fed := fed s @ out\<rparr>" and
    corr: "list_all2 (\<lambda>(tid, train_data) published.
        case det of None \<Rightarrow> published = train_data
        | Some d \<Rightarrow> assemble stack d train_data = Inr published) (non_empty trains) out"
    by blast
  have ne: "\<forall>p \<in> set (non_empty trains). snd p \<noteq> []"
    by (auto simp: non_empty_def)
  from corr ne have corr': "list_all2 (\<lambda>(tid, train_data) published.
        train_data \<noteq> [] \<and>
        (case det of None \<Rightarrow> published = train_data
         | Some d \<Rightarrow> assemble stack d train_data = Inr published)) (non_empty trains) out"
    by (induction rule: list_all2_induct) auto
  have none: "out = map snd (non_empty trains) \<and> [] \<notin> set out" if "det = None"
  proof -
    from run that have "s\<lparr>fed := fed s @ out\<rparr> = s\<lparr>fed := fed s @ map snd (non_empty trains)\<rparr>"
      by (simp add: pump_no_detector s')
    then have "fed (s\<lparr>fed := fed s @ out\<rparr>) = fed (s\<lparr>fed := fed s @ map snd (non_empty trains)\<rparr>)"
      by (rule arg_cong)
    then have "fed s @ out = fed s @ map snd (non_empty trains)"
      by simp
    then have "out = map snd (non_empty trains)" by simp
    with ne show ?thesis by auto
  qed
  show ?thesis
  proof (intro exI [of _ out] conjI impI)
    show "pump stack det trains s = (s\<lparr>fed := fed s @ out\<rparr>, None)"
      using run s' by simp
    show "length out = length (non_empty trains)"
      using list_all2_lengthD [OF corr] by simp
    show "sorted_wrt (<) (map fst (non_empty trains))"
      by (rule sorted_wrt_non_empty [OF assms(1)])
    show "out = map snd (non_empty trains)" if "det = None"
      using none [OF that] by (rule conjunct1)
    show "[] \<notin> set out" if "det = None"
      using none [OF that] by (rule conjunct2)
  qed (rule corr')
qed

theorem pump_feeds_non_empty_in_order_witness:
  "sorted_wrt (<) (map fst run_with_gap) \<and>
   (Some DET = None \<or> snd (pump stack_detector_data (Some DET) run_with_gap server0) = None) \<and>
   (\<exists>out. pump stack_detector_data (Some DET) run_with_gap server0 =
             (server0\<lparr>fed := fed server0 @ out\<rparr>, None) \<and>
          length out = length (non_empty run_with_gap) \<and>
          list_all2 (\<lambda>(tid, train_data) published.
             train_data \<noteq> [] \<and>
             (case Some DET of None \<Rightarrow> published = train_data
              | Some d \<Rightarrow> assemble stack_detector_data d train_data = Inr published))
            (non_empty run_with_gap) out \<and>
          sorted_wrt (<) (map fst (non_empty run_with_gap)) \<and>
          (Some DET = None \<longrightarrow> out = map snd (non_empty run_with_gap) \<and> [] \<notin> set out)) \<and>
   length (non_empty run_with_gap) = 2 \<and>
   fed (fst (pump stack_detector_data (Some DET) run_with_gap server0)) =
     [stacked_frame [2, 2] [1, 2, 3, 4], stacked_frame [2, 2] [5, 6, 7, 8]]"
proof -
  have h1: "sorted_wrt (<) (map fst run_with_gap)"
    by (simp add: run_with_gap_def)
  have h2: "Some DET = None \<or>
      snd (pump stack_detector_data (Some DET) run_with_gap server0) = None"
    by code_simp
  have n: "length (non_empty run_with_gap) = 2"
    by code_simp
  have ev: "fed (fst (pump stack_detector_data (Some DET) run_with_gap server0)) =
      [stacked_frame [2, 2] [1, 2, 3, 4], stacked_frame [2, 2] [5, 6, 7, 8]]"
    by code_simp
  from h1 h2 pump_feeds_non_empty_in_order [OF h1 h2] n ev show ?thesis
    by (intro conjI)
qed

text \<open>
  C1 as stated fails: with append mode on, a frame whose module arrays differ in shape
  makes the stacking raise; the exception leaves the loop.  The run has two non-empty
  frames and none is fed.
\<close>

theorem pump_shape_error_counterexample:
  "length (non_empty run_shape_first) = 2 \<and>
   pump stack_detector_data (Some DET) run_shape_first server0 = (server0, Some ShapeError) \<and>
   fed server0 = []"
  by code_simp

text \<open>
  C2 (as amended).  When the stacking raises on a non-empty frame, nothing catches the
  error: it leaves \<^verbatim>\<open>serve_files\<close>.  The frames before the failing one stay fed; the
  failing frame and every frame after it are not fed, and \<^verbatim>\<open>stop()\<close> is not called.
\<close>

theorem stacking_error_is_not_caught:
  assumes "train_data \<noteq> []"
    and "stack (filter (\<lambda>(k, v). k \<in> set (detector_sources d)) train_data) ''image.data''
           = Inl e"
    and "pump stack (Some d) before (start (ServerInThread ep dummy)) = (s1, None)"
  shows "stream stack (Some d) ep dummy (before @ (tid, train_data) # rest) =
           \<lparr>raised = Some e, server = Some s1\<rparr> \<and>
         length (fed s1) = length (non_empty before) \<and> \<not> stopped s1"
proof -
  from assms(2) have a: "assemble stack d train_data = Inl e"
    by (simp add: assemble_def)
  with assms(1) have "pump stack (Some d) ((tid, train_data) # rest) s1 = (s1, Some e)"
    by simp
  with assms(3) have
    "pump stack (Some d) (before @ (tid, train_data) # rest) (start (ServerInThread ep dummy))
       = (s1, Some e)"
    by (simp add: pump_append)
  then have 1: "stream stack (Some d) ep dummy (before @ (tid, train_data) # rest) =
      \<lparr>raised = Some e, server = Some s1\<rparr>"
    by (simp add: stream_def)
  from pump_fed_ok [OF assms(3)] obtain out where
    s1: "s1 = (start (ServerInThread ep dummy))\<lparr>fed := fed (start (ServerInThread ep dummy)) @ out\<rparr>"
    and corr: "list_all2 (\<lambda>(tid, train_data) published.
        case Some d of None \<Rightarrow> published = train_data
        | Some d \<Rightarrow> assemble stack d train_data = Inr published) (non_empty before) out"
    by blast
  from s1 have "fed s1 = out"
    by (simp add: start_def ServerInThread_def)
  with list_all2_lengthD [OF corr] have 2: "length (fed s1) = length (non_empty before)"
    by simp
  from pump_keeps_flags [OF assms(3)] have 3: "\<not> stopped s1"
    by (simp add: start_def ServerInThread_def)
  from 1 2 3 show ?thesis by (intro conjI)
qed

theorem stacking_error_is_not_caught_witness:
  "stream stack_detector_data (Some DET) ''tcp://*:4545'' False
     ([(100, two_modules [2] [1, 2] [2] [3, 4])]
        @ (101, two_modules [2] [5, 6] [3] [7, 8, 9])
        # [(102, two_modules [2] [10, 11] [2] [12, 13])]) =
     \<lparr>raised = Some ShapeError,
      server = Some (server0\<lparr>fed := [stacked_frame [2, 2] [1, 2, 3, 4]]\<rparr>)\<rparr> \<and>
   length (fed (server0\<lparr>fed := [stacked_frame [2, 2] [1, 2, 3, 4]]\<rparr>)) =
     length (non_empty [(100, two_modules [2] [1, 2] [2] [3, 4])]) \<and>
   \<not> stopped (server0\<lparr>fed := [stacked_frame [2, 2] [1, 2, 3, 4]]\<rparr>)"
proof -
  have h1: "two_modules [2] [5, 6] [3] [7, 8, 9] \<noteq> []"
    by (simp add: two_modules_def)
  have h2: "stack_detector_data
      (filter (\<lambda>(k, v). k \<in> set (detector_sources DET)) (two_modules [2] [5, 6] [3] [7, 8, 9]))
      ''image.data'' = Inl ShapeError"
    by code_simp
  have h3: "pump stack_detector_data (Some DET) [(100, two_modules [2] [1, 2] [2] [3, 4])]
      (start (ServerInThread ''tcp://*:4545'' False)) =
      (server0\<lparr>fed := [stacked_frame [2, 2] [1, 2, 3, 4]]\<rparr>, None)"
    by code_simp
  show ?thesis
    by (rule stacking_error_is_not_caught [OF h1 h2 h3])
qed

text \<open>
  C2 as stated fails: in a run of three frames whose second frame cannot be stacked, the
  \<^verbatim>\<open>ShapeError\<close> leaves \<^verbatim>\<open>serve_files\<close>; only the first frame was fed, the second is not
  passed through and the third is never reached.
\<close>

theorem stacking_error_counterexample:
  "stream stack_detector_data (Some DET) ''tcp://*:4545'' False run_shape_second =
     \<lparr>raised = Some ShapeError,
      server = Some \<lparr>endpoint = ''tcp://*:4545'', dummy_timestamps = False, started = True,
                     stopped = False, fed = [stacked_frame [2, 2] [1, 2, 3, 4]]\<rparr>\<rparr>"
  by code_simp

lemma try_detectors_Some:
  "try_detectors cs data = Inr (Some det) \<longleftrightarrow>
     (\<exists>i<length cs. (cs ! i) data = Inr det \<and> (\<forall>j<i. (cs ! j) data = Inl SourceNameError))"
proof (induction cs)
  case Nil
  then show ?case by simp
next
  case (Cons c cs)
  have split: "(\<exists>i<length (c # cs). ((c # cs) ! i) data = Inr det \<and>
          (\<forall>j<i. ((c # cs) ! j) data = Inl SourceNameError)) \<longleftrightarrow>
        (c data = Inr det \<or> (c data = Inl SourceNameError \<and>
          (\<exists>i<length cs. (cs ! i) data = Inr det \<and>
             (\<forall>j<i. (cs ! j) data = Inl SourceNameError))))"
    by (simp add: Ex_less_Suc2 All_less_Suc2) blast
  show ?case
  proof (cases "c data")
    case (Inr d)
    then show ?thesis unfolding split by auto
  next
    case (Inl e)
    then show ?thesis unfolding split using Cons.IH by (cases e) auto
  qed
qed

lemma try_detectors_None:
  "try_detectors cs data = Inr None \<longleftrightarrow> (\<forall>c \<in> set cs. c data = Inl SourceNameError)"
  by (induction cs) (auto split: sum.splits error.splits)

lemma stream_no_detector:
  "stream stack None ep dummy data =
     \<lparr>raised = None,
      server = Some \<lparr>endpoint = ep, dummy_timestamps = dummy, started = True, stopped = True,
                     fed = map snd (non_empty data)\<rparr>\<rparr>"
  by (simp add: stream_def pump_no_detector start_def stop_def ServerInThread_def)

text \<open>
  C5.  Detection tries the components in the fixed order AGIPD, DSSC, LPD; a component
  that raises \<^verbatim>\<open>SourceNameError\<close> is passed over and the first one that returns is taken
  (for any list of components: the result is the detector of the first component that
  returns, all earlier ones having raised \<^verbatim>\<open>SourceNameError\<close>).  When all three raise
  \<^verbatim>\<open>SourceNameError\<close> the result is \<^verbatim>\<open>None\<close> and no error: append mode does not apply,
  every non-empty frame of the run is fed as it is, in order, no exception leaves
  \<^verbatim>\<open>serve_files\<close> and the server is stopped.
\<close>

theorem detection_priority_and_fallback:
  assumes "(if isdir (fs e) path then RunDirectory (fs e) path else H5File (fs e) path)
             = Inr data0"
    and "data = select e source_glob key_glob data0"
    and "ep = ''tcp://'' @ (if use_infiniband then find_infiniband_ip e else ''*'') @ '':'' @ port"
  shows
    "(try_detectors cs data = Inr (Some det) \<longleftrightarrow>
        (\<exists>i<length cs. (cs ! i) data = Inr det \<and>
           (\<forall>j<i. (cs ! j) data = Inl SourceNameError))) \<and>
     (try_detectors cs data = Inr None \<longleftrightarrow> (\<forall>c \<in> set cs. c data = Inl SourceNameError)) \<and>
     (AGIPD1M e data = Inr det \<longrightarrow>
        serve_files e path port source_glob key_glob True dummy use_infiniband =
          stream (stack_data e) (Some det) ep dummy data) \<and>
     (AGIPD1M e data = Inl SourceNameError \<and> DSSC1M e data = Inr det \<longrightarrow>
        serve_files e path port source_glob key_glob True dummy use_infiniband =
          stream (stack_data e) (Some det) ep dummy data) \<and>
     (AGIPD1M e data = Inl SourceNameError \<and> DSSC1M e data = Inl SourceNameError \<and>
      LPD1M e data = Inr det \<longrightarrow>
        serve_files e path port source_glob key_glob True dummy use_infiniband =
          stream (stack_data e) (Some det) ep dummy data) \<and>
     (AGIPD1M e data = Inl SourceNameError \<and> DSSC1M e data = Inl SourceNameError \<and>
      LPD1M e data = Inl SourceNameError \<longrightarrow>
        try_detectors [AGIPD1M e, DSSC1M e, LPD1M e] data = Inr None \<and>
        serve_files e path port source_glob key_glob True dummy use_infiniband =
          \<lparr>raised = None,
           server = Some \<lparr>endpoint = ep, dummy_timestamps = dummy, started = True,
                          stopped = True, fed = map snd (non_empty data)\<rparr>\<rparr>)"
proof (intro conjI impI)
  show "try_detectors cs data = Inr (Some det) \<longleftrightarrow>
        (\<exists>i<length cs. (cs ! i) data = Inr det \<and>
           (\<forall>j<i. (cs ! j) data = Inl SourceNameError))"
    by (rule try_detectors_Some)
  show "try_detectors cs data = Inr None \<longleftrightarrow> (\<forall>c \<in> set cs. c data = Inl SourceNameError)"
    by (rule try_detectors_None)
  show "serve_files e path port source_glob key_glob True dummy use_infiniband =
          stream (stack_data e) (Some det) ep dummy data"
    if "AGIPD1M e data = Inr det"
    using that assms by (simp add: serve_files_def)
  show "serve_files e path port source_glob key_glob True dummy use_infiniband =
          stream (stack_data e) (Some det) ep dummy data"
    if "AGIPD1M e data = Inl SourceNameError \<and> DSSC1M e data = Inr det"
    using that assms by (simp add: serve_files_def)
  show "serve_files e path port source_glob key_glob True dummy use_infiniband =
          stream (stack_data e) (Some det) ep dummy data"
    if "AGIPD1M e data = Inl SourceNameError \<and> DSSC1M e data = Inl SourceNameError \<and>
      LPD1M e data = Inr det"
    using that assms by (simp add: serve_files_def)
  show "try_detectors [AGIPD1M e, DSSC1M e, LPD1M e] data = Inr None"
    if "AGIPD1M e data = Inl SourceNameError \<and> DSSC1M e data = Inl SourceNameError \<and>
      LPD1M e data = Inl SourceNameError"
    using that by simp
  show "serve_files e path port source_glob key_glob True dummy use_infiniband =
          \<lparr>raised = None,
           server = Some \<lparr>endpoint = ep, dummy_timestamps = dummy, started = True,
                          stopped = True, fed = map snd (non_empty data)\<rparr>\<rparr>"
    if "AGIPD1M e data = Inl SourceNameError \<and> DSSC1M e data = Inl SourceNameError \<and>
      LPD1M e data = Inl SourceNameError"
    using that assms by (simp add: serve_files_def stream_no_detector)
qed

text \<open>
  C7.  Opening fails with \<^verbatim>\<open>NotFoundError\<close> when the path does not exist and with
  \<^verbatim>\<open>FormatError\<close> when what is there is neither a recognizable file nor a directory of
  recognizable files; any error of opening leaves \<^verbatim>\<open>serve_files\<close> before a server exists,
  so before any frame is fed.
\<close>

theorem startup_errors_abort:
  "(fs e path = None \<longrightarrow>
      serve_files e path port source_glob key_glob append_modules dummy use_infiniband =
        \<lparr>raised = Some NotFoundError, server = None\<rparr>) \<and>
   (fs e path = Some (File None) \<or> fs e path = Some (Directory None) \<longrightarrow>
      serve_files e path port source_glob key_glob append_modules dummy use_infiniband =
        \<lparr>raised = Some FormatError, server = None\<rparr>) \<and>
   ((if isdir (fs e) path then RunDirectory (fs e) path else H5File (fs e) path) = Inl err \<longrightarrow>
      serve_files e path port source_glob key_glob append_modules dummy use_infiniband =
        \<lparr>raised = Some err, server = None\<rparr>)"
  by (auto simp: serve_files_def isdir_def RunDirectory_def H5File_def)

theorem detection_priority_and_fallback_witness:
  "(if isdir (fs (example_env run_with_gap not_in_data)) ''/data/run''
    then RunDirectory (fs (example_env run_with_gap not_in_data)) ''/data/run''
    else H5File (fs (example_env run_with_gap not_in_data)) ''/data/run'') = Inr run_with_gap \<and>
   AGIPD1M (example_env run_with_gap not_in_data) run_with_gap = Inl SourceNameError \<and>
   DSSC1M (example_env run_with_gap not_in_data) run_with_gap = Inl SourceNameError \<and>
   LPD1M (example_env run_with_gap not_in_data) run_with_gap = Inl SourceNameError \<and>
   serve_files (example_env run_with_gap not_in_data) ''/data/run'' ''4545'' ''*'' ''*''
     True False False =
     \<lparr>raised = None,
      server = Some \<lparr>endpoint = ''tcp://*:4545'', dummy_timestamps = False, started = True,
                     stopped = True,
                     fed = [two_modules [2] [1, 2] [2] [3, 4], two_modules [2] [5, 6] [2] [7, 8]]\<rparr>\<rparr> \<and>
   AGIPD1M ((example_env run_with_gap (found DET))
      \<lparr>DSSC1M := found \<lparr>detector_name = ''OTHER'', detector_sources = []\<rparr>\<rparr>) run_with_gap
     = Inr DET \<and>
   DSSC1M ((example_env run_with_gap (found DET))
      \<lparr>DSSC1M := found \<lparr>detector_name = ''OTHER'', detector_sources = []\<rparr>\<rparr>) run_with_gap
     = Inr \<lparr>detector_name = ''OTHER'', detector_sources = []\<rparr> \<and>
   serve_files ((example_env run_with_gap (found DET))
      \<lparr>DSSC1M := found \<lparr>detector_name = ''OTHER'', detector_sources = []\<rparr>\<rparr>)
      ''/data/run'' ''4545'' ''*'' ''*'' True False False =
     stream stack_detector_data (Some DET) ''tcp://*:4545'' False run_with_gap \<and>
   AGIPD1M ((example_env run_with_gap not_in_data)\<lparr>DSSC1M := found DET\<rparr>) run_with_gap
     = Inl SourceNameError \<and>
   DSSC1M ((example_env run_with_gap not_in_data)\<lparr>DSSC1M := found DET\<rparr>) run_with_gap
     = Inr DET \<and>
   serve_files ((example_env run_with_gap not_in_data)\<lparr>DSSC1M := found DET\<rparr>)
      ''/data/run'' ''4545'' ''*'' ''*'' True False False =
     stream stack_detector_data (Some DET) ''tcp://*:4545'' False run_with_gap \<and>
   stream stack_detector_data (Some DET) ''tcp://*:4545'' False run_with_gap =
     \<lparr>raised = None,
      server = Some \<lparr>endpoint = ''tcp://*:4545'', dummy_timestamps = False, started = True,
                     stopped = True,
                     fed = [stacked_frame [2, 2] [1, 2, 3, 4], stacked_frame [2, 2] [5, 6, 7, 8]]\<rparr>\<rparr>"
proof -
  let ?e = "example_env run_with_gap not_in_data"
  let ?other = "\<lparr>detector_name = ''OTHER'', detector_sources = []\<rparr>"
  let ?e1 = "(example_env run_with_gap (found DET))\<lparr>DSSC1M := found ?other\<rparr>"
  let ?e2 = "(example_env run_with_gap not_in_data)\<lparr>DSSC1M := found DET\<rparr>"
  have h1: "(if isdir (fs ?e) ''/data/run'' then RunDirectory (fs ?e) ''/data/run''
             else H5File (fs ?e) ''/data/run'') = Inr run_with_gap"
    by (simp add: example_env_def isdir_def RunDirectory_def)
  have h2: "run_with_gap = select ?e ''*'' ''*'' run_with_gap"
    by (simp add: example_env_def)
  have h3: "''tcp://*:4545'' =
      ''tcp://'' @ (if False then find_infiniband_ip ?e else ''*'') @ '':'' @ ''4545''"
    by simp
  have a: "AGIPD1M ?e run_with_gap = Inl SourceNameError"
    "DSSC1M ?e run_with_gap = Inl SourceNameError"
    "LPD1M ?e run_with_gap = Inl SourceNameError"
    by (simp_all add: example_env_def not_in_data_def)
  have n: "map snd (non_empty run_with_gap) =
      [two_modules [2] [1, 2] [2] [3, 4], two_modules [2] [5, 6] [2] [7, 8]]"
    by (simp add: non_empty_def run_with_gap_def two_modules_def)
  from detection_priority_and_fallback [OF h1 h2 h3, of "[]" DET False] a n
  have 1: "serve_files ?e ''/data/run'' ''4545'' ''*'' ''*'' True False False =
     \<lparr>raised = None,
      server = Some \<lparr>endpoint = ''tcp://*:4545'', dummy_timestamps = False, started = True,
                     stopped = True,
                     fed = [two_modules [2] [1, 2] [2] [3, 4], two_modules [2] [5, 6] [2] [7, 8]]\<rparr>\<rparr>"
    by simp
  have h11: "(if isdir (fs ?e1) ''/data/run'' then RunDirectory (fs ?e1) ''/data/run''
             else H5File (fs ?e1) ''/data/run'') = Inr run_with_gap"
    by (simp add: example_env_def isdir_def RunDirectory_def)
  have h12: "run_with_gap = select ?e1 ''*'' ''*'' run_with_gap"
    by (simp add: example_env_def)
  have h13: "''tcp://*:4545'' =
      ''tcp://'' @ (if False then find_infiniband_ip ?e1 else ''*'') @ '':'' @ ''4545''"
    by simp
  have a1: "AGIPD1M ?e1 run_with_gap = Inr DET" "DSSC1M ?e1 run_with_gap = Inr ?other"
    by (simp_all add: example_env_def found_def)
  have s1: "stack_data ?e1 = stack_detector_data"
    by (simp add: example_env_def)
  from detection_priority_and_fallback [OF h11 h12 h13, of "[]" DET False] a1 s1
  have 2: "serve_files ?e1 ''/data/run'' ''4545'' ''*'' ''*'' True False False =
     stream stack_detector_data (Some DET) ''tcp://*:4545'' False run_with_gap"
    by simp
  have h21: "(if isdir (fs ?e2) ''/data/run'' then RunDirectory (fs ?e2) ''/data/run''
             else H5File (fs ?e2) ''/data/run'') = Inr run_with_gap"
    by (simp add: example_env_def isdir_def RunDirectory_def)
  have h22: "run_with_gap = select ?e2 ''*'' ''*'' run_with_gap"
    by (simp add: example_env_def)
  have h23: "''tcp://*:4545'' =
      ''tcp://'' @ (if False then find_infiniband_ip ?e2 else ''*'') @ '':'' @ ''4545''"
    by simp
  have a2: "AGIPD1M ?e2 run_with_gap = Inl SourceNameError" "DSSC1M ?e2 run_with_gap = Inr DET"
    by (simp_all add: example_env_def found_def not_in_data_def)
  have s2: "stack_data ?e2 = stack_detector_data"
    by (simp add: example_env_def)
  from detection_priority_and_fallback [OF h21 h22 h23, of "[]" DET False] a2 s2
  have 3: "serve_files ?e2 ''/data/run'' ''4545'' ''*'' ''*'' True False False =
     stream stack_detector_data (Some DET) ''tcp://*:4545'' False run_with_gap"
    by simp
  have ev: "stream stack_detector_data (Some DET) ''tcp://*:4545'' False run_with_gap =
     \<lparr>raised = None,
      server = Some \<lparr>endpoint = ''tcp://*:4545'', dummy_timestamps = False, started = True,
                     stopped = True,
                     fed = [stacked_frame [2, 2] [1, 2, 3, 4], stacked_frame [2, 2] [5, 6, 7, 8]]\<rparr>\<rparr>"
    by code_simp
  from h1 a 1 a1 2 a2 3 ev show ?thesis by (intro conjI)
qed

theorem startup_errors_abort_witness:
  "fs (example_env run_with_gap not_in_data) ''/data/absent'' = None \<and>
   serve_files (example_env run_with_gap not_in_data) ''/data/absent'' ''4545'' ''*'' ''*''
     False False False = \<lparr>raised = Some NotFoundError, server = None\<rparr> \<and>
   fs (example_env run_with_gap not_in_data) ''/data/notes.txt'' = Some (File None) \<and>
   serve_files (example_env run_with_gap not_in_data) ''/data/notes.txt'' ''4545'' ''*'' ''*''
     False False False = \<lparr>raised = Some FormatError, server = None\<rparr>"
proof -
  let ?e = "example_env run_with_gap not_in_data"
  have h1: "fs ?e ''/data/absent'' = None"
    by (simp add: example_env_def)
  have h2: "fs ?e ''/data/notes.txt'' = Some (File None)"
    by (simp add: example_env_def)
  from h1 h2
    startup_errors_abort [of ?e "''/data/absent''" "''4545''" "''*''" "''*''" False False False]
    startup_errors_abort [of ?e "''/data/notes.txt''" "''4545''" "''*''" "''*''" False False False]
  show ?thesis by simp
qed

section \<open>Properties of the calls on the server\<close>

lemma pump_calls_feeds:
  "pump_calls stack det intr trains calls = (calls', r) \<Longrightarrow> \<exists>out. calls' = calls @ map Feed out"
proof (induction trains arbitrary: intr calls)
  case Nil
  then show ?case by (auto split: if_splits)
next
  case (Cons t trains)
  obtain tid train_data where t: "t = (tid, train_data)" by (cases t)
  let ?intr = "map_option (\<lambda>n. n - 1) intr"
  show ?case
  proof (cases "intr = Some 0")
    case True
    with Cons.prems t show ?thesis by simp
  next
    case ni: False
    show ?thesis
    proof (cases "train_data = []")
      case True
      with Cons.prems t ni have "pump_calls stack det ?intr trains calls = (calls', r)" by simp
      then show ?thesis by (rule Cons.IH)
    next
      case ne: False
      show ?thesis
      proof (cases det)
        case None
        with Cons.prems t ni ne
        have "pump_calls stack det ?intr trains (calls @ [Feed train_data]) = (calls', r)"
          by simp
        from Cons.IH [OF this] obtain out where "calls' = (calls @ [Feed train_data]) @ map Feed out"
          by blast
        then have "calls' = calls @ map Feed (train_data # out)" by simp
        then show ?thesis by blast
      next
        case (Some d)
        show ?thesis
        proof (cases "assemble stack d train_data")
          case (Inl e)
          with Cons.prems t ni ne Some have "calls' = calls @ map Feed []" by simp
          then show ?thesis by blast
        next
          case (Inr train_data')
          with Cons.prems t ni ne Some
          have "pump_calls stack det ?intr trains (calls @ [Feed train_data']) = (calls', r)"
            by simp
          from Cons.IH [OF this] obtain out where
            "calls' = (calls @ [Feed train_data']) @ map Feed out"
            by blast
          then have "calls' = calls @ map Feed (train_data' # out)" by simp
          then show ?thesis by blast
        qed
      qed
    qed
  qed
qed

lemma pump_calls_no_detector:
  "pump_calls stack None None trains calls = (calls @ map Feed (map snd (non_empty trains)), None)"
  by (induction trains arbitrary: calls) (auto simp: non_empty_def)

lemma pump_calls_interrupt:
  "n \<le> length trains \<Longrightarrow>
   pump_calls stack det (Some n) trains calls =
     (case pump_calls stack det None (take n trains) calls of
        (calls', None) \<Rightarrow> (calls', Some KeyboardInterrupt)
      | (calls', Some x) \<Rightarrow> (calls', Some x))"
proof (induction trains arbitrary: n calls)
  case Nil
  then show ?case by simp
next
  case (Cons t trains)
  obtain tid train_data where t: "t = (tid, train_data)" by (cases t)
  show ?case
  proof (cases n)
    case 0
    with t show ?thesis by simp
  next
    case (Suc m)
    with Cons.prems have m: "m \<le> length trains" by simp
    show ?thesis
      using Cons.IH [OF m] t Suc
      by (auto split: option.splits sum.splits)
  qed
qed

lemma pump_calls_late:
  "length trains < n \<Longrightarrow>
   pump_calls stack det (Some n) trains calls = pump_calls stack det None trains calls"
proof (induction trains arbitrary: n calls)
  case Nil
  then show ?case by simp
next
  case (Cons t trains)
  obtain tid train_data where t: "t = (tid, train_data)" by (cases t)
  from Cons.prems obtain m where n: "n = Suc m" and m: "length trains < m"
    by (cases n) auto
  show ?case
    using Cons.IH [OF m] t n
    by (auto split: option.splits sum.splits)
qed

lemma pump_calls_pump:
  "pump stack det trains s = (s', r) \<Longrightarrow>
   \<exists>out. fed s' = fed s @ out \<and>
     pump_calls stack det None trains calls = (calls @ map Feed out, map_option Exception r)"
proof (induction trains arbitrary: s calls)
  case Nil
  then show ?case by auto
next
  case (Cons t trains)
  obtain tid train_data where t: "t = (tid, train_data)" by (cases t)
  show ?case
  proof (cases "train_data = []")
    case True
    with Cons.prems t have "pump stack det trains s = (s', r)" by simp
    from Cons.IH [OF this, of calls] True t show ?thesis by simp
  next
    case ne: False
    show ?thesis
    proof (cases det)
      case None
      with Cons.prems t ne have "pump stack det trains (feed train_data s) = (s', r)" by simp
      from Cons.IH [OF this, of "calls @ [Feed train_data]"] obtain out where
        f: "fed s' = fed (feed train_data s) @ out" and
        p: "pump_calls stack det None trains (calls @ [Feed train_data]) =
              ((calls @ [Feed train_data]) @ map Feed out, map_option Exception r)"
        by blast
      from f have "fed s' = fed s @ (train_data # out)" by (simp add: feed_def)
      moreover from p t ne None
      have "pump_calls stack det None (t # trains) calls =
          (calls @ map Feed (train_data # out), map_option Exception r)"
        by simp
      ultimately show ?thesis by blast
    next
      case (Some d)
      show ?thesis
      proof (cases "assemble stack d train_data")
        case (Inl e)
        with Cons.prems t ne Some have "s' = s" and "r = Some e" by simp_all
        with t ne Some Inl have "fed s' = fed s @ []"
          and "pump_calls stack det None (t # trains) calls =
            (calls @ map Feed [], map_option Exception r)"
          by simp_all
        then show ?thesis by blast
      next
        case (Inr train_data')
        with Cons.prems t ne Some have "pump stack det trains (feed train_data' s) = (s', r)"
          by simp
        from Cons.IH [OF this, of "calls @ [Feed train_data']"] obtain out where
          f: "fed s' = fed (feed train_data' s) @ out" and
          p: "pump_calls stack det None trains (calls @ [Feed train_data']) =
                ((calls @ [Feed train_data']) @ map Feed out, map_option Exception r)"
          by blast
        from f have "fed s' = fed s @ (train_data' # out)" by (simp add: feed_def)
        moreover from p t ne Some Inr
        have "pump_calls stack det None (t # trains) calls =
            (calls @ map Feed (train_data' # out), map_option Exception r)"
          by simp
        ultimately show ?thesis by blast
      qed
    qed
  qed
qed


lemma stream_calls_cases:
  obtains out where
      "stream_calls stack det ep dummy intr data =
         (Create ep dummy # Start # map Feed out @ [Stop], None)"
  | out x where
      "stream_calls stack det ep dummy intr data =
         (Create ep dummy # Start # map Feed out, Some x)"
proof (cases "pump_calls stack det intr data [Create ep dummy, Start]")
  case (Pair calls' r)
  from pump_calls_feeds [OF Pair] obtain out where
    c: "calls' = [Create ep dummy, Start] @ map Feed out"
    by blast
  show ?thesis
  proof (cases r)
    case None
    with Pair c have "stream_calls stack det ep dummy intr data =
        (Create ep dummy # Start # map Feed out @ [Stop], None)"
      by (simp add: stream_calls_def)
    then show ?thesis by (rule that(1))
  next
    case (Some x)
    with Pair c have "stream_calls stack det ep dummy intr data =
        (Create ep dummy # Start # map Feed out, Some x)"
      by (simp add: stream_calls_def)
    then show ?thesis by (rule that(2))
  qed
qed

lemma stream_calls_late:
  "length data < n \<Longrightarrow>
   stream_calls stack det ep dummy (Some n) data = stream_calls stack det ep dummy None data"
  by (simp add: stream_calls_def pump_calls_late)

lemma serve_files_calls_cases:
  obtains err where
      "serve_files_calls e path port source_glob key_glob append_modules dummy use_infiniband
         intr = ([], Some (Exception err))"
  | stack det data where
      "serve_files_calls e path port source_glob key_glob append_modules dummy use_infiniband
         intr =
       stream_calls stack det
         (''tcp://'' @ (if use_infiniband then find_infiniband_ip e else ''*'') @ '':'' @ port)
         dummy intr data"
proof (cases "if isdir (fs e) path then RunDirectory (fs e) path else H5File (fs e) path")
  case (Inl err)
  then have "serve_files_calls e path port source_glob key_glob append_modules dummy
      use_infiniband intr = ([], Some (Exception err))"
    by (simp add: serve_files_calls_def)
  then show ?thesis by (rule that(1))
next
  case (Inr data0)
  show ?thesis
  proof (cases "if append_modules
                 then try_detectors [AGIPD1M e, DSSC1M e, LPD1M e]
                        (select e source_glob key_glob data0)
                 else Inr None")
    case (Inl err)
    with Inr have "serve_files_calls e path port source_glob key_glob append_modules dummy
        use_infiniband intr = ([], Some (Exception err))"
      by (simp add: serve_files_calls_def)
    then show ?thesis by (rule that(1))
  next
    case det: (Inr det)
    with Inr have "serve_files_calls e path port source_glob key_glob append_modules dummy
        use_infiniband intr =
        stream_calls (stack_data e) det
          (''tcp://'' @ (if use_infiniband then find_infiniband_ip e else ''*'') @ '':'' @ port)
          dummy intr (select e source_glob key_glob data0)"
      by (simp add: serve_files_calls_def)
    then show ?thesis by (rule that(2))
  qed
qed

text \<open>
  Without an interrupt the calls are those that the server record of \<^verbatim>\<open>serve_files\<close>
  stands for.
\<close>

lemma stream_calls_stream:
  "stream_calls stack det ep dummy None data =
     (case server (stream stack det ep dummy data) of
        None \<Rightarrow> []
      | Some s \<Rightarrow>
          Create (endpoint s) dummy # Start # map Feed (fed s) @ (if stopped s then [Stop] else []),
      map_option Exception (raised (stream stack det ep dummy data)))"
proof (cases "pump stack det data (start (ServerInThread ep dummy))")
  case (Pair s' r)
  from pump_calls_pump [OF Pair, of "[Create ep dummy, Start]"] obtain out where
    f: "fed s' = fed (start (ServerInThread ep dummy)) @ out" and
    p: "pump_calls stack det None data [Create ep dummy, Start] =
          ([Create ep dummy, Start] @ map Feed out, map_option Exception r)"
    by blast
  from f have f': "fed s' = out" by (simp add: start_def ServerInThread_def)
  from pump_keeps_flags [OF Pair] have k: "\<not> stopped s'" "endpoint s' = ep"
    by (simp_all add: start_def ServerInThread_def)
  show ?thesis
  proof (cases r)
    case None
    with Pair p f' k show ?thesis
      by (simp add: stream_calls_def stream_def stop_def)
  next
    case (Some err)
    with Pair p f' k show ?thesis
      by (simp add: stream_calls_def stream_def)
  qed
qed

lemma serve_files_calls_serve_files:
  "serve_files_calls e path port source_glob key_glob append_modules dummy use_infiniband None =
     (case server (serve_files e path port source_glob key_glob append_modules dummy
                     use_infiniband) of
        None \<Rightarrow> []
      | Some s \<Rightarrow>
          Create (endpoint s) dummy # Start # map Feed (fed s) @ (if stopped s then [Stop] else []),
      map_option Exception
        (raised (serve_files e path port source_glob key_glob append_modules dummy
                   use_infiniband)))"
proof (cases "if isdir (fs e) path then RunDirectory (fs e) path else H5File (fs e) path")
  case (Inl err)
  then show ?thesis by (simp add: serve_files_calls_def serve_files_def)
next
  case (Inr data0)
  show ?thesis
  proof (cases "if append_modules
                 then try_detectors [AGIPD1M e, DSSC1M e, LPD1M e]
                        (select e source_glob key_glob data0)
                 else Inr None")
    case (Inl err)
    with Inr show ?thesis by (simp add: serve_files_calls_def serve_files_def)
  next
    case det: (Inr det)
    with Inr show ?thesis
      by (simp add: serve_files_calls_def serve_files_def stream_calls_stream Let_def)
  qed
qed

text \<open>
  C8 (as amended).  When no exception leaves \<^verbatim>\<open>serve_files\<close>, the calls on the server are
  its creation, \<^verbatim>\<open>start()\<close>, the feeds, and \<^verbatim>\<open>stop()\<close> once, as the last call, after the last
  feed.  When an exception leaves \<^verbatim>\<open>serve_files\<close>, an interrupt included, \<^verbatim>\<open>stop()\<close> has not
  been called; when it is an interrupt, the server was created and started and has been
  fed, and that is all.  With append mode off, an interrupt that arrives in the loop after
  \<open>n\<close> trains does leave \<^verbatim>\<open>serve_files\<close>, the non-empty frames among the first \<open>n\<close> having
  been fed; and with no interrupt \<^verbatim>\<open>serve_files\<close> returns by itself once the trains are
  exhausted, every non-empty frame fed and the server stopped.  An interrupt that arrives
  after more trains than the run has changes nothing of this.
\<close>

theorem stop_only_after_complete_loop:
  "(snd (serve_files_calls e path port source_glob key_glob append_modules dummy use_infiniband
           intr) = None \<longrightarrow>
      (\<exists>out. fst (serve_files_calls e path port source_glob key_glob append_modules dummy
                     use_infiniband intr) =
         Create (''tcp://'' @ (if use_infiniband then find_infiniband_ip e else ''*'')
                   @ '':'' @ port) dummy
           # Start # map Feed out @ [Stop])) \<and>
   (snd (serve_files_calls e path port source_glob key_glob append_modules dummy use_infiniband
           intr) \<noteq> None \<longrightarrow>
      Stop \<notin> set (fst (serve_files_calls e path port source_glob key_glob append_modules dummy
                         use_infiniband intr))) \<and>
   (snd (serve_files_calls e path port source_glob key_glob append_modules dummy use_infiniband
           intr) = Some KeyboardInterrupt \<longrightarrow>
      (\<exists>out. fst (serve_files_calls e path port source_glob key_glob append_modules dummy
                     use_infiniband intr) =
         Create (''tcp://'' @ (if use_infiniband then find_infiniband_ip e else ''*'')
                   @ '':'' @ port) dummy
           # Start # map Feed out)) \<and>
   ((if isdir (fs e) path then RunDirectory (fs e) path else H5File (fs e) path) = Inr opened \<and>
    n \<le> length (select e source_glob key_glob opened) \<longrightarrow>
      serve_files_calls e path port source_glob key_glob False dummy use_infiniband (Some n) =
        (Create (''tcp://'' @ (if use_infiniband then find_infiniband_ip e else ''*'')
                   @ '':'' @ port) dummy
           # Start
           # map Feed (map snd (non_empty (take n (select e source_glob key_glob opened)))),
         Some KeyboardInterrupt)) \<and>
   ((if isdir (fs e) path then RunDirectory (fs e) path else H5File (fs e) path) = Inr opened \<longrightarrow>
      serve_files_calls e path port source_glob key_glob False dummy use_infiniband None =
        (Create (''tcp://'' @ (if use_infiniband then find_infiniband_ip e else ''*'')
                   @ '':'' @ port) dummy
           # Start
           # map Feed (map snd (non_empty (select e source_glob key_glob opened))) @ [Stop],
         None)) \<and>
   ((if isdir (fs e) path then RunDirectory (fs e) path else H5File (fs e) path) = Inr opened \<and>
    length (select e source_glob key_glob opened) < n \<longrightarrow>
      serve_files_calls e path port source_glob key_glob append_modules dummy use_infiniband
        (Some n) =
      serve_files_calls e path port source_glob key_glob append_modules dummy use_infiniband
        None)"
proof -
  let ?ep = "''tcp://'' @ (if use_infiniband then find_infiniband_ip e else ''*'') @ '':'' @ port"
  let ?R = "serve_files_calls e path port source_glob key_glob append_modules dummy
      use_infiniband intr"
  have 123: "(snd ?R = None \<longrightarrow> (\<exists>out. fst ?R = Create ?ep dummy # Start # map Feed out @ [Stop])) \<and>
      (snd ?R \<noteq> None \<longrightarrow> Stop \<notin> set (fst ?R)) \<and>
      (snd ?R = Some KeyboardInterrupt \<longrightarrow> (\<exists>out. fst ?R = Create ?ep dummy # Start # map Feed out))"
  proof (cases rule: serve_files_calls_cases
      [of e path port source_glob key_glob append_modules dummy use_infiniband intr])
    case (1 err)
    then show ?thesis by simp
  next
    case (2 stack det data)
    show ?thesis
    proof (cases rule: stream_calls_cases [of stack det ?ep dummy intr data])
      case (1 out)
      with 2 have "?R = (Create ?ep dummy # Start # map Feed out @ [Stop], None)" by simp
      then show ?thesis by auto
    next
      case (2 out x)
      with \<open>?R = stream_calls stack det ?ep dummy intr data\<close>
      have "?R = (Create ?ep dummy # Start # map Feed out, Some x)" by simp
      then show ?thesis by auto
    qed
  qed
  have 4: "serve_files_calls e path port source_glob key_glob False dummy use_infiniband (Some n) =
        (Create ?ep dummy # Start
           # map Feed (map snd (non_empty (take n (select e source_glob key_glob opened)))),
         Some KeyboardInterrupt)"
    if "(if isdir (fs e) path then RunDirectory (fs e) path else H5File (fs e) path) = Inr opened \<and>
        n \<le> length (select e source_glob key_glob opened)"
    using that
    by (simp add: serve_files_calls_def stream_calls_def pump_calls_interrupt
        pump_calls_no_detector)
  have 5: "serve_files_calls e path port source_glob key_glob False dummy use_infiniband None =
        (Create ?ep dummy # Start
           # map Feed (map snd (non_empty (select e source_glob key_glob opened))) @ [Stop],
         None)"
    if "(if isdir (fs e) path then RunDirectory (fs e) path else H5File (fs e) path) = Inr opened"
    using that
    by (simp add: serve_files_calls_def stream_calls_def pump_calls_no_detector)
  have 6: "serve_files_calls e path port source_glob key_glob append_modules dummy use_infiniband
        (Some n) =
      serve_files_calls e path port source_glob key_glob append_modules dummy use_infiniband
        None"
    if "(if isdir (fs e) path then RunDirectory (fs e) path else H5File (fs e) path) = Inr opened \<and>
        length (select e source_glob key_glob opened) < n"
  proof -
    from that have op: "(if isdir (fs e) path then RunDirectory (fs e) path
        else H5File (fs e) path) = Inr opened"
      and l: "length (select e source_glob key_glob opened) < n"
      by simp_all
    show ?thesis
    proof (cases "if append_modules
                   then try_detectors [AGIPD1M e, DSSC1M e, LPD1M e]
                          (select e source_glob key_glob opened)
                   else Inr None")
      case (Inl err)
      with op show ?thesis
        by (simp add: serve_files_calls_def Let_def del: try_detectors.simps)
    next
      case (Inr det)
      with op stream_calls_late [OF l] show ?thesis
        by (simp add: serve_files_calls_def Let_def del: try_detectors.simps)
    qed
  qed
  from 123 4 5 6 show ?thesis by blast
qed


theorem stop_only_after_complete_loop_witness:
  "(if isdir (fs (example_env run_with_gap not_in_data)) ''/data/run''
    then RunDirectory (fs (example_env run_with_gap not_in_data)) ''/data/run''
    else H5File (fs (example_env run_with_gap not_in_data)) ''/data/run'') = Inr run_with_gap \<and>
   1 \<le> length (select (example_env run_with_gap not_in_data) ''*'' ''*'' run_with_gap) \<and>
   serve_files_calls (example_env run_with_gap not_in_data) ''/data/run'' ''4545'' ''*'' ''*''
     False False False (Some 1) =
     ([Create ''tcp://*:4545'' False, Start, Feed (two_modules [2] [1, 2] [2] [3, 4])],
      Some KeyboardInterrupt) \<and>
   serve_files_calls (example_env run_with_gap not_in_data) ''/data/run'' ''4545'' ''*'' ''*''
     False False False None =
     ([Create ''tcp://*:4545'' False, Start, Feed (two_modules [2] [1, 2] [2] [3, 4]),
       Feed (two_modules [2] [5, 6] [2] [7, 8]), Stop],
      None) \<and>
   snd (serve_files_calls (example_env run_with_gap (found DET)) ''/data/run'' ''4545'' ''*''
          ''*'' True False False (Some 3)) = Some KeyboardInterrupt \<and>
   Stop \<notin> set (fst (serve_files_calls (example_env run_with_gap (found DET)) ''/data/run''
                       ''4545'' ''*'' ''*'' True False False (Some 3))) \<and>
   (\<exists>out. fst (serve_files_calls (example_env run_with_gap (found DET)) ''/data/run'' ''4545''
                  ''*'' ''*'' True False False (Some 3)) =
      Create ''tcp://*:4545'' False # Start # map Feed out) \<and>
   snd (serve_files_calls (example_env run_with_gap (found DET)) ''/data/run'' ''4545'' ''*''
          ''*'' True False False None) = None \<and>
   (\<exists>out. fst (serve_files_calls (example_env run_with_gap (found DET)) ''/data/run'' ''4545''
                  ''*'' ''*'' True False False None) =
      Create ''tcp://*:4545'' False # Start # map Feed out @ [Stop])"
proof -
  let ?e = "example_env run_with_gap not_in_data"
  let ?d = "example_env run_with_gap (found DET)"
  have h1: "(if isdir (fs ?e) ''/data/run'' then RunDirectory (fs ?e) ''/data/run''
             else H5File (fs ?e) ''/data/run'') = Inr run_with_gap"
    by (simp add: example_env_def isdir_def RunDirectory_def)
  have h2: "1 \<le> length (select ?e ''*'' ''*'' run_with_gap)"
    by (simp add: example_env_def run_with_gap_def)
  have f1: "map snd (non_empty (take 1 (select ?e ''*'' ''*'' run_with_gap))) =
      [two_modules [2] [1, 2] [2] [3, 4]]"
    by (simp add: example_env_def run_with_gap_def non_empty_def two_modules_def)
  have f2: "map snd (non_empty (select ?e ''*'' ''*'' run_with_gap)) =
      [two_modules [2] [1, 2] [2] [3, 4], two_modules [2] [5, 6] [2] [7, 8]]"
    by (simp add: example_env_def run_with_gap_def non_empty_def two_modules_def)
  note off = stop_only_after_complete_loop
    [where e = ?e and path = "''/data/run''" and port = "''4545''" and source_glob = "''*''"
       and key_glob = "''*''" and append_modules = False and dummy = False
       and use_infiniband = False and intr = None and opened = run_with_gap and n = 1]
  note interrupted = off [THEN conjunct2, THEN conjunct2, THEN conjunct2, THEN conjunct1,
    THEN mp, OF conjI [OF h1 h2], unfolded f1]
  note returned = off [THEN conjunct2, THEN conjunct2, THEN conjunct2, THEN conjunct2,
    THEN conjunct1, THEN mp, OF h1, unfolded f2]
  from interrupted have w3: "serve_files_calls ?e ''/data/run'' ''4545'' ''*'' ''*''
     False False False (Some 1) =
     ([Create ''tcp://*:4545'' False, Start, Feed (two_modules [2] [1, 2] [2] [3, 4])],
      Some KeyboardInterrupt)"
    by simp
  from returned have w4: "serve_files_calls ?e ''/data/run'' ''4545'' ''*'' ''*''
     False False False None =
     ([Create ''tcp://*:4545'' False, Start, Feed (two_modules [2] [1, 2] [2] [3, 4]),
       Feed (two_modules [2] [5, 6] [2] [7, 8]), Stop],
      None)"
    by simp
  have i: "snd (serve_files_calls ?d ''/data/run'' ''4545'' ''*'' ''*'' True False False
      (Some 3)) = Some KeyboardInterrupt"
    by code_simp
  note on = stop_only_after_complete_loop
    [where e = ?d and path = "''/data/run''" and port = "''4545''" and source_glob = "''*''"
       and key_glob = "''*''" and append_modules = True and dummy = False
       and use_infiniband = False and intr = "Some 3" and opened = run_with_gap and n = 1]
  from on i have w5: "Stop \<notin> set (fst (serve_files_calls ?d ''/data/run'' ''4545'' ''*'' ''*''
      True False False (Some 3)))"
    by simp
  from on i have w6: "\<exists>out. fst (serve_files_calls ?d ''/data/run'' ''4545'' ''*'' ''*''
      True False False (Some 3)) = Create ''tcp://*:4545'' False # Start # map Feed out"
    by simp
  have r: "snd (serve_files_calls ?d ''/data/run'' ''4545'' ''*'' ''*'' True False False None)
      = None"
    by code_simp
  note ret = stop_only_after_complete_loop
    [where e = ?d and path = "''/data/run''" and port = "''4545''" and source_glob = "''*''"
       and key_glob = "''*''" and append_modules = True and dummy = False
       and use_infiniband = False and intr = None and opened = run_with_gap and n = 1]
  from ret r have w7: "\<exists>out. fst (serve_files_calls ?d ''/data/run'' ''4545'' ''*'' ''*''
      True False False None) = Create ''tcp://*:4545'' False # Start # map Feed out @ [Stop]"
    by simp
  from h1 h2 w3 w4 i w5 w6 r w7 show ?thesis by (intro conjI)
qed

text \<open>
  C8 as stated fails.  An interrupt that arrives after the first train of a run leaves
  \<^verbatim>\<open>serve_files\<close> with one frame fed and \<^verbatim>\<open>stop()\<close> not called.  So does the \<^verbatim>\<open>KeyError\<close> of
  line 109 for a train in which one module has no data (the same run in the server
  record: started, not stopped).  And the program does not run until it is interrupted:
  without an interrupt it returns once the run is exhausted.
\<close>

theorem stop_not_called_counterexample:
  "serve_files_calls (example_env run_with_gap not_in_data) ''/data/run'' ''4545'' ''*'' ''*''
     False False False (Some 1) =
     ([Create ''tcp://*:4545'' False, Start, Feed (two_modules [2] [1, 2] [2] [3, 4])],
      Some KeyboardInterrupt) \<and>
   serve_files_calls (example_env run_missing_module (found DET)) ''/data/run'' ''4545'' ''*''
     ''*'' True False False None =
     ([Create ''tcp://*:4545'' False, Start, Feed (stacked_frame [2, 2] [1, 2, 3, 4])],
      Some (Exception KeyError)) \<and>
   serve_files (example_env run_missing_module (found DET)) ''/data/run'' ''4545'' ''*'' ''*''
     True False False =
     \<lparr>raised = Some KeyError,
      server = Some \<lparr>endpoint = ''tcp://*:4545'', dummy_timestamps = False, started = True,
                     stopped = False, fed = [stacked_frame [2, 2] [1, 2, 3, 4]]\<rparr>\<rparr> \<and>
   serve_files_calls (example_env run_with_gap not_in_data) ''/data/run'' ''4545'' ''*'' ''*''
     False False False None =
     ([Create ''tcp://*:4545'' False, Start, Feed (two_modules [2] [1, 2] [2] [3, 4]),
       Feed (two_modules [2] [5, 6] [2] [7, 8]), Stop],
      None)"
  by (intro conjI) code_simp+

section \<open>Properties of \<^verbatim>\<open>hdf5_datasets\<close>\<close>

lemma foldl_visitor:
  "foldl visitor acc grp = acc @ datasets_of grp"
proof (induction grp arbitrary: acc)
  case Nil
  then show ?case by simp
next
  case (Cons x grp)
  obtain path item where x: "x = (path, item)" by (cases x)
  show ?case using Cons x by (cases item) simp_all
qed

lemma visititems_datasets: "visititems grp = datasets_of grp"
  by (simp add: visititems_def foldl_visitor)

lemma mset_datasets_of:
  "mset grp' = mset grp \<Longrightarrow> mset (datasets_of grp') = mset (datasets_of grp)"
proof -
  have "mset (datasets_of g) =
      image_mset (\<lambda>(p, i). case i of Dataset s d \<Rightarrow> (p, s, d) | Group \<Rightarrow> (p, [], []))
        (filter_mset (\<lambda>(p, i). i \<noteq> Group) (mset g))" for g
  proof (induction g)
    case Nil
    then show ?case by simp
  next
    case (Cons x g)
    obtain path item where x: "x = (path, item)" by (cases x)
    show ?case using Cons x by (cases item) simp_all
  qed
  then show "mset grp' = mset grp \<Longrightarrow> mset (datasets_of grp') = mset (datasets_of grp)"
    by simp
qed

text \<open>
  C10.  What \<^verbatim>\<open>hdf5_datasets\<close> writes is the header row \<^verbatim>\<open>path, shape, dtype\<close> followed
  by one row for each dataset that the visitor met, no more and no fewer; the dataset
  rows are in sorted order, the path compared first; and the output is the same in
  whatever order the visitor meets the objects of the group.
\<close>

theorem hdf5_datasets_sorted_rows:
  "(\<exists>rows. hdf5_datasets grp = [Text ''path'', Text ''shape'', Text ''dtype''] # map writerow rows \<and>
      mset rows = mset (datasets_of grp) \<and> length rows = length (datasets_of grp) \<and>
      sorted rows \<and> sorted (map fst rows)) \<and>
   (mset grp' = mset grp \<longrightarrow> hdf5_datasets grp' = hdf5_datasets grp)"
proof (intro conjI impI)
  have s: "sorted (sort (datasets_of grp))" by simp
  have "sorted_wrt (\<lambda>x y. fst x \<le> fst y) (sort (datasets_of grp))"
    by (rule sorted_wrt_mono_rel [OF _ s]) (auto simp: less_eq_prod_def)
  then have p: "sorted (map fst (sort (datasets_of grp)))"
    by (simp add: sorted_map)
  show "\<exists>rows. hdf5_datasets grp = [Text ''path'', Text ''shape'', Text ''dtype''] # map writerow rows \<and>
      mset rows = mset (datasets_of grp) \<and> length rows = length (datasets_of grp) \<and>
      sorted rows \<and> sorted (map fst rows)"
    using s p
    by (intro exI [of _ "sort (datasets_of grp)"])
       (simp add: hdf5_datasets_def visititems_datasets)
  show "hdf5_datasets grp' = hdf5_datasets grp" if "mset grp' = mset grp"
  proof -
    from mset_datasets_of [OF that] have "sort (datasets_of grp') = sort (datasets_of grp)"
      by (simp add: properties_for_sort)
    then show ?thesis by (simp add: hdf5_datasets_def visititems_datasets)
  qed
qed


theorem hdf5_datasets_sorted_rows_witness:
  "mset [(''a'', Dataset [10] ''<u2''), (''b/x'', Dataset [] ''<i8''), (''b'', Group),
         (''b/y'', Dataset [3, 4] ''<f4'')] = mset example_group \<and>
   hdf5_datasets [(''a'', Dataset [10] ''<u2''), (''b/x'', Dataset [] ''<i8''), (''b'', Group),
         (''b/y'', Dataset [3, 4] ''<f4'')] = hdf5_datasets example_group \<and>
   hdf5_datasets example_group =
     [[Text ''path'', Text ''shape'', Text ''dtype''],
      [Text ''a'', Shape [10], Text ''<u2''],
      [Text ''b/x'', Shape [], Text ''<i8''],
      [Text ''b/y'', Shape [3, 4], Text ''<f4'']]"
proof -
  have h: "mset [(''a'', Dataset [10] ''<u2''), (''b/x'', Dataset [] ''<i8''), (''b'', Group),
         (''b/y'', Dataset [3, 4] ''<f4'')] = mset example_group"
    by (simp add: example_group_def)
  have ev: "hdf5_datasets example_group =
     [[Text ''path'', Text ''shape'', Text ''dtype''],
      [Text ''a'', Shape [10], Text ''<u2''],
      [Text ''b/x'', Shape [], Text ''<i8''],
      [Text ''b/y'', Shape [3, 4], Text ''<f4'']]"
    by code_simp
  from h ev hdf5_datasets_sorted_rows [of example_group
      "[(''a'', Dataset [10] ''<u2''), (''b/x'', Dataset [] ''<i8''), (''b'', Group),
         (''b/y'', Dataset [3, 4] ''<f4'')]"]
  show ?thesis by blast
qed

section \<open>Properties of the assembly\<close>

lemma del_sources_filter:
  "del_sources srcs train_data = Inr train_data' \<Longrightarrow>
   train_data' = filter (\<lambda>(k, v). k \<notin> set srcs) train_data"
proof (induction srcs arbitrary: train_data)
  case Nil
  then show ?case by simp
next
  case (Cons src srcs)
  from Cons.prems have "del_sources srcs (AList.delete src train_data) = Inr train_data'"
    by (simp split: if_splits)
  from Cons.IH [OF this] show ?case
    by (auto simp: AList.delete_eq intro: filter_cong)
qed

lemma map_of_filter_keys:
  "map_of (filter (\<lambda>(k, v). P k) xs) k = (if P k then map_of xs k else None)"
  by (induction xs) auto

lemma assemble_Inr:
  assumes "assemble stack det train_data = Inr train_data'"
  obtains first_src mod_data rest stacked md where
    "filter (\<lambda>(k, v). k \<in> set (detector_sources det)) train_data = (first_src, mod_data) # rest"
    "stack (filter (\<lambda>(k, v). k \<in> set (detector_sources det)) train_data) ''image.data''
       = Inr stacked"
    "map_of mod_data ''metadata'' = Some (Dict md)"
    "train_data' = filter (\<lambda>(k, v). k \<notin> set (detector_sources det))
       (AList.update first_src
          (AList.update ''metadata''
             (Dict (AList.update ''source'' (Str (detector_name det @ ''/DET/APPEND'')) md))
             (AList.update ''image.data'' stacked mod_data))
          (AList.update (detector_name det @ ''/DET/APPEND'')
             (AList.update ''metadata''
                (Dict (AList.update ''source'' (Str (detector_name det @ ''/DET/APPEND'')) md))
                (AList.update ''image.data'' stacked mod_data))
             train_data))"
proof -
  let ?dd = "filter (\<lambda>(k, v). k \<in> set (detector_sources det)) train_data"
  let ?name = "detector_name det @ ''/DET/APPEND''"
  from assms obtain stacked where st: "stack ?dd ''image.data'' = Inr stacked"
    by (cases "stack ?dd ''image.data''") (simp_all add: assemble_def)
  from assms st obtain first_src mod_data rest where dd: "?dd = (first_src, mod_data) # rest"
    by (cases ?dd) (auto simp: assemble_def)
  from assms st dd obtain m' where
    sm: "set_metadata_source ?name (AList.update ''image.data'' stacked mod_data) = Inr m'" and
    del: "del_sources (detector_sources det)
            (AList.update first_src m' (AList.update ?name m' train_data)) = Inr train_data'"
    by (cases "set_metadata_source ?name (AList.update ''image.data'' stacked mod_data)")
       (simp_all add: assemble_def)
  from sm obtain md where
    md0: "map_of (AList.update ''image.data'' stacked mod_data) ''metadata'' = Some (Dict md)" and
    m': "m' = AList.update ''metadata'' (Dict (AList.update ''source'' (Str ?name) md))
                (AList.update ''image.data'' stacked mod_data)"
    by (auto simp: set_metadata_source_def split: option.splits val.splits)
  from md0 have md: "map_of mod_data ''metadata'' = Some (Dict md)"
    by (simp add: update_conv')
  from del_sources_filter [OF del] m' have
    "train_data' = filter (\<lambda>(k, v). k \<notin> set (detector_sources det))
       (AList.update first_src
          (AList.update ''metadata'' (Dict (AList.update ''source'' (Str ?name) md))
             (AList.update ''image.data'' stacked mod_data))
          (AList.update ?name
             (AList.update ''metadata'' (Dict (AList.update ''source'' (Str ?name) md))
                (AList.update ''image.data'' stacked mod_data))
             train_data))"
    by simp
  with dd st md show ?thesis by (rule that)
qed

text \<open>
  C6 (as amended).  Whenever the assembly of a frame succeeds, the synthetic record is the
  record of the first detector module in the iteration order of the frame's source map
  (\<^verbatim>\<open>next(iter(det_data.values()))\<close>, line 103): every key other than \<^verbatim>\<open>image.data\<close> and
  \<^verbatim>\<open>metadata\<close> has the value it has in that module, and its metadata is that module's
  metadata with the entry \<^verbatim>\<open>source\<close> rewritten to the synthetic source name.
\<close>

theorem synthetic_record_from_first_module:
  assumes "assemble stack det train_data = Inr train_data'"
    and "detector_name det @ ''/DET/APPEND'' \<notin> set (detector_sources det)"
  shows "\<exists>first_src mod_data rest md mod_data' md'.
      filter (\<lambda>(k, v). k \<in> set (detector_sources det)) train_data
        = (first_src, mod_data) # rest \<and>
      map_of mod_data ''metadata'' = Some (Dict md) \<and>
      map_of train_data' (detector_name det @ ''/DET/APPEND'') = Some mod_data' \<and>
      (\<forall>k. k \<noteq> ''image.data'' \<and> k \<noteq> ''metadata'' \<longrightarrow> map_of mod_data' k = map_of mod_data k) \<and>
      map_of mod_data' ''metadata'' = Some (Dict md') \<and>
      map_of md' ''source'' = Some (Str (detector_name det @ ''/DET/APPEND'')) \<and>
      (\<forall>k. k \<noteq> ''source'' \<longrightarrow> map_of md' k = map_of md k)"
proof -
  let ?name = "detector_name det @ ''/DET/APPEND''"
  from assms(1) obtain first_src mod_data rest stacked md where
    dd: "filter (\<lambda>(k, v). k \<in> set (detector_sources det)) train_data
           = (first_src, mod_data) # rest" and
    md: "map_of mod_data ''metadata'' = Some (Dict md)" and
    td': "train_data' = filter (\<lambda>(k, v). k \<notin> set (detector_sources det))
       (AList.update first_src
          (AList.update ''metadata'' (Dict (AList.update ''source'' (Str ?name) md))
             (AList.update ''image.data'' stacked mod_data))
          (AList.update ?name
             (AList.update ''metadata'' (Dict (AList.update ''source'' (Str ?name) md))
                (AList.update ''image.data'' stacked mod_data))
             train_data))"
    by (rule assemble_Inr)
  let ?md' = "AList.update ''source'' (Str ?name) md"
  let ?m' = "AList.update ''metadata'' (Dict ?md') (AList.update ''image.data'' stacked mod_data)"
  from dd have "(first_src, mod_data) \<in> set (filter (\<lambda>(k, v). k \<in> set (detector_sources det)) train_data)"
    by simp
  then have fs: "first_src \<in> set (detector_sources det)" by auto
  with assms(2) have ne: "first_src \<noteq> ?name" by auto
  have 1: "map_of train_data' ?name = Some ?m'"
    using assms(2) ne by (simp add: td' map_of_filter_keys update_conv')
  have 2: "\<forall>k. k \<noteq> ''image.data'' \<and> k \<noteq> ''metadata'' \<longrightarrow> map_of ?m' k = map_of mod_data k"
    by (simp add: update_conv')
  have 3: "map_of ?m' ''metadata'' = Some (Dict ?md')"
    by (simp add: update_conv')
  have 4: "map_of ?md' ''source'' = Some (Str ?name)"
    by (simp add: update_conv')
  have 5: "\<forall>k. k \<noteq> ''source'' \<longrightarrow> map_of ?md' k = map_of md k"
    by (simp add: update_conv')
  from dd md 1 2 3 4 5 show ?thesis by blast
qed

text \<open>
  C6 as stated fails: the chosen module depends on the insertion order of the source map.
  Two frames that hold the same two module records, inserted in opposite orders, are
  assembled into synthetic records with different metadata (the time stamp of module 1
  in one, of module 0 in the other).
\<close>

theorem insertion_order_counterexample:
  "mset frame_module1_first = mset frame_module0_first \<and>
   assemble stack_detector_data DET frame_module1_first =
     Inr [(''DET/DET/APPEND'',
           [(''image.data'', Arr [2, 2] [1, 2, 3, 4]),
            (''metadata'', Dict [(''source'', Str ''DET/DET/APPEND''), (''timestamp.tid'', Num 11)])])] \<and>
   assemble stack_detector_data DET frame_module0_first =
     Inr [(''DET/DET/APPEND'',
           [(''image.data'', Arr [2, 2] [1, 2, 3, 4]),
            (''metadata'', Dict [(''source'', Str ''DET/DET/APPEND''), (''timestamp.tid'', Num 10)])])]"
proof (intro conjI)
  show "mset frame_module1_first = mset frame_module0_first"
    by (simp add: frame_module1_first_def frame_module0_first_def)
qed code_simp+

theorem synthetic_record_from_first_module_witness:
  "assemble stack_detector_data DET frame_module1_first =
     Inr [(''DET/DET/APPEND'',
           [(''image.data'', Arr [2, 2] [1, 2, 3, 4]),
            (''metadata'', Dict [(''source'', Str ''DET/DET/APPEND''), (''timestamp.tid'', Num 11)])])] \<and>
   detector_name DET @ ''/DET/APPEND'' \<notin> set (detector_sources DET) \<and>
   (\<exists>first_src mod_data rest md mod_data' md'.
      filter (\<lambda>(k, v). k \<in> set (detector_sources DET)) frame_module1_first
        = (first_src, mod_data) # rest \<and>
      map_of mod_data ''metadata'' = Some (Dict md) \<and>
      map_of [(''DET/DET/APPEND'',
           [(''image.data'', Arr [2, 2] [1, 2, 3, 4]),
            (''metadata'', Dict [(''source'', Str ''DET/DET/APPEND''), (''timestamp.tid'', Num 11)])])]
        (detector_name DET @ ''/DET/APPEND'') = Some mod_data' \<and>
      (\<forall>k. k \<noteq> ''image.data'' \<and> k \<noteq> ''metadata'' \<longrightarrow> map_of mod_data' k = map_of mod_data k) \<and>
      map_of mod_data' ''metadata'' = Some (Dict md') \<and>
      map_of md' ''source'' = Some (Str (detector_name DET @ ''/DET/APPEND'')) \<and>
      (\<forall>k. k \<noteq> ''source'' \<longrightarrow> map_of md' k = map_of md k))"
proof -
  have h1: "assemble stack_detector_data DET frame_module1_first =
     Inr [(''DET/DET/APPEND'',
           [(''image.data'', Arr [2, 2] [1, 2, 3, 4]),
            (''metadata'', Dict [(''source'', Str ''DET/DET/APPEND''), (''timestamp.tid'', Num 11)])])]"
    by code_simp
  have h2: "detector_name DET @ ''/DET/APPEND'' \<notin> set (detector_sources DET)"
    by (simp add: DET_def)
  from h1 h2 synthetic_record_from_first_module [OF h1 h2] show ?thesis
    by (intro conjI)
qed

lemma stack_detector_data_Inr:
  assumes "stack_detector_data mods data_key = Inr v"
  shows "\<exists>shp. v = Arr (length mods # shp)
             (concat (map (\<lambda>(src, m). module_elems data_key m) (by_channel mods))) \<and>
           list_all (\<lambda>(src, m). map_option fst (module_array data_key m) = Some shp) mods"
proof (cases "by_channel mods")
  case Nil
  with assms show ?thesis by (simp add: stack_detector_data_def)
next
  case (Cons p ms)
  obtain src0 mod0 where p: "p = (src0, mod0)" by (cases p)
  have len: "length mods = Suc (length ms)"
    using Cons by (metis by_channel_def length_Cons length_sort)
  have set: "set mods = set ((src0, mod0) # ms)"
    using Cons p by (metis by_channel_def set_sort)
  from assms Cons p obtain shp xs0 where
    a0: "module_array data_key mod0 = Some (shp, xs0)" and
    all: "list_all (\<lambda>(src, m). map_option fst (module_array data_key m) = Some shp) ms" and
    v: "v = Arr (Suc (length ms) # shp)
          (concat (map (\<lambda>(src, m). module_elems data_key m) ((src0, mod0) # ms)))"
    by (auto simp: stack_detector_data_def split: if_splits option.splits)
  from a0 all have "list_all (\<lambda>(src, m). map_option fst (module_array data_key m) = Some shp)
      ((src0, mod0) # ms)"
    by simp
  with set have "list_all (\<lambda>(src, m). map_option fst (module_array data_key m) = Some shp) mods"
    by (simp add: list_all_iff)
  with v len Cons p show ?thesis by simp
qed

lemma count_key_distinct:
  "distinct (map fst xs) \<Longrightarrow> map_of xs a = Some b \<Longrightarrow>
   length (filter (\<lambda>(k, v). k = a) xs) = 1"
proof (induction xs)
  case Nil
  then show ?case by simp
next
  case (Cons x xs)
  obtain k v where x: "x = (k, v)" by (cases x)
  show ?case
  proof (cases "k = a")
    case True
    with Cons.prems x have "a \<notin> fst ` set xs" by simp
    then have "filter (\<lambda>(k, v). k = a) xs = []"
      by (force simp: filter_empty_conv)
    with True x show ?thesis by simp
  next
    case False
    with Cons x show ?thesis by simp
  qed
qed

lemma replace_channel_segment_module:
  "CHR ''/'' \<notin> set seg \<Longrightarrow>
   replace_channel_segment (name @ ''/DET/'' @ seg) ''APPEND'' = name @ ''/DET/APPEND''"
proof -
  assume a: "CHR ''/'' \<notin> set seg"
  have "dropWhile (\<lambda>c. c \<noteq> CHR ''/'') (rev seg @ rev (name @ ''/DET/'')) =
      dropWhile (\<lambda>c. c \<noteq> CHR ''/'') (rev (name @ ''/DET/''))"
    using a by (intro dropWhile_append2) auto
  then show ?thesis by (simp add: replace_channel_segment_def)
qed

lemma scenario_64:
  "assemble stack_detector_data DET (two_modules [64, 64] xs0 [64, 64] xs1)
     = Inr (stacked_frame [2, 64, 64] (xs0 @ xs1))"
  by (simp add: assemble_def DET_def two_modules_def module_record_def stack_detector_data_def
      by_channel_def channel_index_def last_segment_def is_digit_def module_array_def
      module_elems_def other_keys_def set_metadata_source_def same_entries_def
      stacked_frame_def Let_def)

text \<open>
  C3.  When the assembly of a frame with the stacking function succeeds, the resulting
  frame has exactly one entry under the synthetic name \<^verbatim>\<open>{detector_name}/DET/APPEND\<close>, no
  entry under any detector module source, and every other source as before.  The synthetic
  name is what replacing the channel segment (the last path segment) of a module source
  name by the tag \<^verbatim>\<open>APPEND\<close> gives.  The value at \<^verbatim>\<open>image.data\<close> is an array whose shape
  is the number of modules followed by the common shape of the module arrays, and whose
  elements are the module arrays one after the other in increasing channel-index order,
  whatever their order in the source map.  The scenario with two modules of shape (64, 64)
  is the instance that follows the theorem.
\<close>

theorem stacked_source_replaces_modules:
  assumes "assemble stack_detector_data det train_data = Inr train_data'"
    and "distinct (map fst train_data)"
    and "detector_name det @ ''/DET/APPEND'' \<notin> set (detector_sources det)"
  shows "\<exists>mod_data' shp.
      map_of train_data' (detector_name det @ ''/DET/APPEND'') = Some mod_data' \<and>
      length (filter (\<lambda>(k, v). k = detector_name det @ ''/DET/APPEND'') train_data') = 1 \<and>
      (\<forall>src \<in> set (detector_sources det). map_of train_data' src = None) \<and>
      (\<forall>k. k \<notin> set (detector_sources det) \<and> k \<noteq> detector_name det @ ''/DET/APPEND'' \<longrightarrow>
           map_of train_data' k = map_of train_data k) \<and>
      map_of mod_data' ''image.data'' =
        Some (Arr (length (filter (\<lambda>(k, v). k \<in> set (detector_sources det)) train_data) # shp)
          (concat (map (\<lambda>(src, m). module_elems ''image.data'' m)
             (by_channel (filter (\<lambda>(k, v). k \<in> set (detector_sources det)) train_data))))) \<and>
      list_all (\<lambda>(src, m). map_option fst (module_array ''image.data'' m) = Some shp)
        (filter (\<lambda>(k, v). k \<in> set (detector_sources det)) train_data) \<and>
      sorted (map (\<lambda>(src, m). channel_index src)
        (by_channel (filter (\<lambda>(k, v). k \<in> set (detector_sources det)) train_data))) \<and>
      mset (by_channel (filter (\<lambda>(k, v). k \<in> set (detector_sources det)) train_data)) =
        mset (filter (\<lambda>(k, v). k \<in> set (detector_sources det)) train_data) \<and>
      (\<forall>seg. CHR ''/'' \<notin> set seg \<longrightarrow>
         replace_channel_segment (detector_name det @ ''/DET/'' @ seg) ''APPEND'' =
           detector_name det @ ''/DET/APPEND'')"
proof -
  let ?name = "detector_name det @ ''/DET/APPEND''"
  let ?mods = "filter (\<lambda>(k, v). k \<in> set (detector_sources det)) train_data"
  from assms(1) obtain first_src mod_data rest stacked md where
    dd: "?mods = (first_src, mod_data) # rest" and
    st: "stack_detector_data ?mods ''image.data'' = Inr stacked" and
    td': "train_data' = filter (\<lambda>(k, v). k \<notin> set (detector_sources det))
       (AList.update first_src
          (AList.update ''metadata'' (Dict (AList.update ''source'' (Str ?name) md))
             (AList.update ''image.data'' stacked mod_data))
          (AList.update ?name
             (AList.update ''metadata'' (Dict (AList.update ''source'' (Str ?name) md))
                (AList.update ''image.data'' stacked mod_data))
             train_data))"
    by (rule assemble_Inr)
  let ?m' = "AList.update ''metadata'' (Dict (AList.update ''source'' (Str ?name) md))
               (AList.update ''image.data'' stacked mod_data)"
  from stack_detector_data_Inr [OF st] obtain shp where
    v: "stacked = Arr (length ?mods # shp)
          (concat (map (\<lambda>(src, m). module_elems ''image.data'' m) (by_channel ?mods)))" and
    shapes: "list_all (\<lambda>(src, m). map_option fst (module_array ''image.data'' m) = Some shp) ?mods"
    by blast
  from dd have "(first_src, mod_data) \<in> set ?mods" by simp
  then have "first_src \<in> set (detector_sources det)" by auto
  with assms(3) have ne: "first_src \<noteq> ?name" by auto
  have 1: "map_of train_data' ?name = Some ?m'"
    using assms(3) ne by (simp add: td' map_of_filter_keys update_conv')
  have "distinct (map fst (AList.update first_src ?m' (AList.update ?name ?m' train_data)))"
    using assms(2) by (intro distinct_update)
  then have "distinct (map fst train_data')"
    unfolding td' by (rule distinct_map_filter)
  from count_key_distinct [OF this 1] have 2:
    "length (filter (\<lambda>(k, v). k = ?name) train_data') = 1" .
  have 3: "\<forall>src \<in> set (detector_sources det). map_of train_data' src = None"
    by (simp add: td' map_of_filter_keys)
  have 4: "\<forall>k. k \<notin> set (detector_sources det) \<and> k \<noteq> ?name \<longrightarrow>
      map_of train_data' k = map_of train_data k"
  proof (intro allI impI)
    fix k assume k: "k \<notin> set (detector_sources det) \<and> k \<noteq> ?name"
    with \<open>first_src \<in> set (detector_sources det)\<close> have "k \<noteq> first_src" by auto
    with k show "map_of train_data' k = map_of train_data k"
      by (simp add: td' map_of_filter_keys update_conv')
  qed
  have 5: "map_of ?m' ''image.data'' =
      Some (Arr (length ?mods # shp)
        (concat (map (\<lambda>(src, m). module_elems ''image.data'' m) (by_channel ?mods))))"
    by (simp add: update_conv' v)
  have 6: "sorted (map (\<lambda>(src, m). channel_index src) (by_channel ?mods))"
    unfolding by_channel_def by (rule sorted_sort_key)
  have 7: "mset (by_channel ?mods) = mset ?mods"
    unfolding by_channel_def by simp
  have 8: "\<forall>seg. CHR ''/'' \<notin> set seg \<longrightarrow>
      replace_channel_segment (detector_name det @ ''/DET/'' @ seg) ''APPEND'' = ?name"
    using replace_channel_segment_module [of _ "detector_name det"] by blast
  from 1 2 3 4 5 shapes 6 7 8 show ?thesis by blast
qed

theorem stacked_source_replaces_modules_witness:
  "assemble stack_detector_data DET
     (two_modules [64, 64] (replicate 4096 0) [64, 64] (replicate 4096 1)) =
     Inr (stacked_frame [2, 64, 64] (replicate 4096 0 @ replicate 4096 1)) \<and>
   distinct (map fst (two_modules [64, 64] (replicate 4096 0) [64, 64] (replicate 4096 1))) \<and>
   detector_name DET @ ''/DET/APPEND'' \<notin> set (detector_sources DET) \<and>
   (\<exists>mod_data' shp.
      map_of (stacked_frame [2, 64, 64] (replicate 4096 0 @ replicate 4096 1))
        (detector_name DET @ ''/DET/APPEND'') = Some mod_data' \<and>
      length (filter (\<lambda>(k, v). k = detector_name DET @ ''/DET/APPEND'')
        (stacked_frame [2, 64, 64] (replicate 4096 0 @ replicate 4096 1))) = 1 \<and>
      (\<forall>src \<in> set (detector_sources DET).
         map_of (stacked_frame [2, 64, 64] (replicate 4096 0 @ replicate 4096 1)) src = None) \<and>
      (\<forall>k. k \<notin> set (detector_sources DET) \<and> k \<noteq> detector_name DET @ ''/DET/APPEND'' \<longrightarrow>
           map_of (stacked_frame [2, 64, 64] (replicate 4096 0 @ replicate 4096 1)) k =
           map_of (two_modules [64, 64] (replicate 4096 0) [64, 64] (replicate 4096 1)) k) \<and>
      map_of mod_data' ''image.data'' =
        Some (Arr (length (filter (\<lambda>(k, v). k \<in> set (detector_sources DET))
                     (two_modules [64, 64] (replicate 4096 0) [64, 64] (replicate 4096 1))) # shp)
          (concat (map (\<lambda>(src, m). module_elems ''image.data'' m)
             (by_channel (filter (\<lambda>(k, v). k \<in> set (detector_sources DET))
                (two_modules [64, 64] (replicate 4096 0) [64, 64] (replicate 4096 1))))))) \<and>
      list_all (\<lambda>(src, m). map_option fst (module_array ''image.data'' m) = Some shp)
        (filter (\<lambda>(k, v). k \<in> set (detector_sources DET))
           (two_modules [64, 64] (replicate 4096 0) [64, 64] (replicate 4096 1))) \<and>
      sorted (map (\<lambda>(src, m). channel_index src)
        (by_channel (filter (\<lambda>(k, v). k \<in> set (detector_sources DET))
           (two_modules [64, 64] (replicate 4096 0) [64, 64] (replicate 4096 1))))) \<and>
      mset (by_channel (filter (\<lambda>(k, v). k \<in> set (detector_sources DET))
           (two_modules [64, 64] (replicate 4096 0) [64, 64] (replicate 4096 1)))) =
        mset (filter (\<lambda>(k, v). k \<in> set (detector_sources DET))
           (two_modules [64, 64] (replicate 4096 0) [64, 64] (replicate 4096 1))) \<and>
      (\<forall>seg. CHR ''/'' \<notin> set seg \<longrightarrow>
         replace_channel_segment (detector_name DET @ ''/DET/'' @ seg) ''APPEND'' =
           detector_name DET @ ''/DET/APPEND''))"
proof -
  have h1: "assemble stack_detector_data DET
     (two_modules [64, 64] (replicate 4096 0) [64, 64] (replicate 4096 1)) =
     Inr (stacked_frame [2, 64, 64] (replicate 4096 0 @ replicate 4096 1))"
    by (rule scenario_64)
  have h2: "distinct (map fst
      (two_modules [64, 64] (replicate 4096 0) [64, 64] (replicate 4096 1)))"
    by (simp add: two_modules_def)
  have h3: "detector_name DET @ ''/DET/APPEND'' \<notin> set (detector_sources DET)"
    by (simp add: DET_def)
  from h1 h2 h3 stacked_source_replaces_modules [OF h1 h2 h3] show ?thesis
    by (intro conjI)
qed

section \<open>Properties of the assembly on the store\<close>

lemma keeps_refl: "keeps h0 h0"
  by (simp add: keeps_def)

lemma keeps_length:
  assumes "keeps h0 h"
  shows "length h0 \<le> length h"
proof -
  from assms have "length (take (length h0) h) = length h0"
    by (simp add: keeps_def)
  then show ?thesis by simp
qed

lemma keeps_alloc:
  assumes "keeps h0 h" and "obj_from (length h0) ob"
  shows "keeps h0 (h @ [ob])"
proof -
  from assms(1) have "length h0 \<le> length h" by (rule keeps_length)
  with assms show ?thesis by (simp add: keeps_def)
qed

lemma keeps_update:
  assumes "keeps h0 h" and "length h0 \<le> a" and "obj_from (length h0) ob"
  shows "keeps h0 (h[a := ob])"
proof -
  have "set ((drop (length h0) h)[a - length h0 := ob]) \<subseteq> insert ob (set (drop (length h0) h))"
    by (rule set_update_subset_insert)
  with assms show ?thesis
    by (auto simp: keeps_def drop_update_swap list_all_iff)
qed

lemma keeps_get_dict:
  assumes "keeps h0 h" and "length h0 \<le> a" and "get_dict h a = Some d"
  shows "list_all (\<lambda>(k, c). slot_from (length h0) c) d"
proof -
  from assms(3) have a: "a < length h" and d: "h ! a = DictObj d"
    by (auto simp: get_dict_def split: if_splits obj.splits)
  from a assms(2) have "h ! a = drop (length h0) h ! (a - length h0)" by simp
  moreover from a assms(2) have "a - length h0 < length (drop (length h0) h)" by simp
  ultimately have "h ! a \<in> set (drop (length h0) h)" by (metis nth_mem)
  with assms(1) have "obj_from (length h0) (h ! a)" by (simp add: keeps_def list_all_iff)
  with d show ?thesis by (simp add: obj_from_def)
qed

lemma list_all_update:
  "list_all P d \<Longrightarrow> P (k, c) \<Longrightarrow> list_all P (AList.update k c d)"
  by (induction d) auto

lemma list_all_delete: "list_all P d \<Longrightarrow> list_all P (AList.delete k d)"
  by (simp add: AList.delete_eq list_all_iff)

lemma keeps_setitem:
  assumes "keeps h0 h" and "length h0 \<le> a" and "slot_from (length h0) c"
    and "setitem a k c h = Inr h'"
  shows "keeps h0 h'"
proof -
  from assms(4) obtain d where d: "get_dict h a = Some d"
    and h': "h' = h[a := DictObj (AList.update k c d)]"
    by (auto simp: setitem_def split: option.splits)
  from keeps_get_dict [OF assms(1,2) d] assms(3)
  have "obj_from (length h0) (DictObj (AList.update k c d))"
    by (simp add: obj_from_def list_all_update)
  with assms(1,2) show ?thesis unfolding h' by (rule keeps_update)
qed

lemma keeps_delitem:
  assumes "keeps h0 h" and "length h0 \<le> a" and "delitem a k h = Inr h'"
  shows "keeps h0 h'"
proof -
  from assms(3) obtain d where d: "get_dict h a = Some d"
    and h': "h' = h[a := DictObj (AList.delete k d)]"
    by (auto simp: delitem_def split: option.splits if_splits)
  from keeps_get_dict [OF assms(1,2) d]
  have "obj_from (length h0) (DictObj (AList.delete k d))"
    by (simp add: obj_from_def list_all_delete)
  with assms(1,2) show ?thesis unfolding h' by (rule keeps_update)
qed

lemma keeps_getitem:
  assumes "keeps h0 h" and "length h0 \<le> a" and "getitem a k h = Inr c"
  shows "slot_from (length h0) c"
proof -
  from assms(3) obtain d where d: "get_dict h a = Some d" and c: "map_of d k = Some c"
    by (auto simp: getitem_def split: option.splits)
  from c have "(k, c) \<in> set d" by (rule map_of_SomeD)
  with keeps_get_dict [OF assms(1,2) d] show ?thesis by (auto simp: list_all_iff)
qed

lemma keeps_del_sources_store:
  "keeps h0 h \<Longrightarrow> length h0 \<le> a \<Longrightarrow> del_sources_store srcs a h = (r, h') \<Longrightarrow> keeps h0 h'"
proof (induction srcs arbitrary: h)
  case Nil
  then show ?case by simp
next
  case (Cons src srcs)
  show ?case
  proof (cases "delitem a src h")
    case (Inl e)
    with Cons.prems show ?thesis by simp
  next
    case (Inr h1)
    from Cons.prems(1,2) Inr have "keeps h0 h1" by (rule keeps_delitem)
    moreover from Cons.prems(3) Inr have "del_sources_store srcs a h1 = (r, h')" by simp
    ultimately show ?thesis using Cons.prems(2) Cons.IH by blast
  qed
qed

lemma keeps_store_val:
  assumes "keeps h0 h" and "store_val v h = (c, h')"
  shows "keeps h0 h' \<and> slot_from (length h0) c"
proof (cases v)
  case (Arr shp xs)
  with assms(2) have c: "c = Ref (length h)" and h': "h' = h @ [ArrObj shp xs]"
    by (auto simp: store_val_def)
  have "obj_from (length h0) (ArrObj shp xs)" by (simp add: obj_from_def)
  with assms(1) have "keeps h0 h'" unfolding h' by (rule keeps_alloc)
  with c keeps_length [OF assms(1)] show ?thesis by (simp add: slot_from_def)
next
  case (Dict d)
  with assms(2) have c: "c = Ref (length h)"
    and h': "h' = h @ [DictObj (map (\<lambda>(k, v). (k, Imm v)) d)]"
    by (auto simp: store_val_def)
  have "obj_from (length h0) (DictObj (map (\<lambda>(k, v). (k, Imm v)) d))"
    by (auto simp: obj_from_def list_all_iff slot_from_def)
  with assms(1) have "keeps h0 h'" unfolding h' by (rule keeps_alloc)
  with c keeps_length [OF assms(1)] show ?thesis by (simp add: slot_from_def)
next
  case (Str s)
  with assms show ?thesis by (auto simp: store_val_def slot_from_def)
next
  case (Num n)
  with assms show ?thesis by (auto simp: store_val_def slot_from_def)
qed

lemma keeps_store_items:
  "keeps h0 h \<Longrightarrow> store_items r h = (cs, h') \<Longrightarrow>
   keeps h0 h' \<and> list_all (\<lambda>(k, c). slot_from (length h0) c) cs"
proof (induction r arbitrary: h cs h')
  case Nil
  then show ?case by simp
next
  case (Cons kv r)
  obtain k v where kv: "kv = (k, v)" by (cases kv)
  obtain c h1 where sv: "store_val v h = (c, h1)" by (cases "store_val v h")
  obtain cs1 h2 where si: "store_items r h1 = (cs1, h2)" by (cases "store_items r h1")
  from Cons.prems(2) kv sv si have cs: "cs = (k, c) # cs1" and h': "h' = h2" by simp_all
  from keeps_store_val [OF Cons.prems(1) sv] have k1: "keeps h0 h1"
    and c: "slot_from (length h0) c" by simp_all
  from Cons.IH [OF k1 si] c show ?case by (simp add: cs h')
qed

lemma keeps_store_record:
  assumes "keeps h0 h" and "store_record r h = (c, h')"
  shows "keeps h0 h' \<and> slot_from (length h0) c"
proof -
  obtain cs h1 where si: "store_items r h = (cs, h1)" by (cases "store_items r h")
  with assms(2) have c: "c = Ref (length h1)" and h': "h' = h1 @ [DictObj cs]"
    by (simp_all add: store_record_def)
  from keeps_store_items [OF assms(1) si] have k1: "keeps h0 h1"
    and "obj_from (length h0) (DictObj cs)" by (simp_all add: obj_from_def)
  then have "keeps h0 h'" unfolding h' by (rule keeps_alloc)
  with c keeps_length [OF k1] show ?thesis by (simp add: slot_from_def)
qed

lemma keeps_store_sources:
  "keeps h0 h \<Longrightarrow> store_sources f h = (cs, h') \<Longrightarrow>
   keeps h0 h' \<and> list_all (\<lambda>(k, c). slot_from (length h0) c) cs"
proof (induction f arbitrary: h cs h')
  case Nil
  then show ?case by simp
next
  case (Cons sr f)
  obtain src r where sr: "sr = (src, r)" by (cases sr)
  obtain c h1 where sv: "store_record r h = (c, h1)" by (cases "store_record r h")
  obtain cs1 h2 where si: "store_sources f h1 = (cs1, h2)" by (cases "store_sources f h1")
  from Cons.prems(2) sr sv si have cs: "cs = (src, c) # cs1" and h': "h' = h2" by simp_all
  from keeps_store_record [OF Cons.prems(1) sv] have k1: "keeps h0 h1"
    and c: "slot_from (length h0) c" by simp_all
  from Cons.IH [OF k1 si] c show ?case by (simp add: cs h')
qed

lemma keeps_new_frame:
  assumes "keeps h0 h" and "new_frame f h = (a, h')"
  shows "keeps h0 h' \<and> length h0 \<le> a"
proof -
  obtain cs h1 where si: "store_sources f h = (cs, h1)" by (cases "store_sources f h")
  with assms(2) have a: "a = length h1" and h': "h' = h1 @ [DictObj cs]"
    by (simp_all add: new_frame_def)
  from keeps_store_sources [OF assms(1) si] have k1: "keeps h0 h1"
    and "obj_from (length h0) (DictObj cs)" by (simp_all add: obj_from_def)
  then have "keeps h0 h'" unfolding h' by (rule keeps_alloc)
  with a keeps_length [OF k1] show ?thesis by simp
qed

lemma keeps_assemble_store:
  assumes k: "keeps h0 h" and a: "length h0 \<le> train_data"
    and r: "assemble_store stack det train_data h = (r, h')"
  shows "keeps h0 h'"
proof (cases "get_dict h train_data")
  case None
  with r k show ?thesis by (simp add: assemble_store_def)
next
  case (Some items)
  let ?name = "detector_name det @ ''/DET/APPEND''"
  let ?det_data = "filter (\<lambda>(k, v). k \<in> set (detector_sources det)) items"
  show ?thesis
  proof (cases "stack h ?det_data ''image.data''")
    case (Inl e)
    with r k Some show ?thesis by (simp add: assemble_store_def)
  next
    case (Inr stacked_val)
    obtain stacked h1 where sv: "store_val stacked_val h = (stacked, h1)"
      by (cases "store_val stacked_val h")
    from keeps_store_val [OF k sv] have k1: "keeps h0 h1"
      and st: "slot_from (length h0) stacked" by simp_all
    show ?thesis
    proof (cases ?det_data)
      case Nil
      with r k1 Some Inr sv show ?thesis by (simp add: assemble_store_def)
    next
      case (Cons p rest)
      obtain first_src mod_data where p: "p = (first_src, mod_data)" by (cases p)
      from Cons p have "(first_src, mod_data) \<in> set ?det_data" by simp
      then have "(first_src, mod_data) \<in> set items" by simp
      with keeps_get_dict [OF k a Some] have md: "slot_from (length h0) mod_data"
        by (auto simp: list_all_iff)
      show ?thesis
      proof (cases "setitem train_data ?name mod_data h1")
        case (Inl e)
        with r k1 Some Inr sv Cons p show ?thesis by (simp add: assemble_store_def)
      next
        case h2: (Inr h2)
        from k1 a md h2 have k2: "keeps h0 h2" by (rule keeps_setitem)
        show ?thesis
        proof (cases mod_data)
          case (Imm v)
          with r k2 Some Inr sv Cons p h2 show ?thesis by (simp add: assemble_store_def)
        next
          case (Ref m)
          with md have m: "length h0 \<le> m" by (simp add: slot_from_def)
          show ?thesis
          proof (cases "setitem m ''image.data'' stacked h2")
            case (Inl e)
            with r k2 Some Inr sv Cons p h2 Ref show ?thesis by (simp add: assemble_store_def)
          next
            case h3: (Inr h3)
            from k2 m st h3 have k3: "keeps h0 h3" by (rule keeps_setitem)
            show ?thesis
            proof (cases "getitem m ''metadata'' h3")
              case (Inl e)
              with r k3 Some Inr sv Cons p h2 Ref h3 show ?thesis
                by (simp add: assemble_store_def)
            next
              case g: (Inr c)
              from k3 m g have c: "slot_from (length h0) c" by (rule keeps_getitem)
              show ?thesis
              proof (cases c)
                case (Imm v)
                with r k3 Some Inr sv Cons p h2 Ref h3 g show ?thesis
                  by (simp add: assemble_store_def)
              next
                case mda: (Ref mda)
                with c have mda': "length h0 \<le> mda" by (simp add: slot_from_def)
                show ?thesis
                proof (cases "setitem mda ''source'' (Imm (Str ?name)) h3")
                  case (Inl e)
                  with r k3 Some Inr sv Cons p h2 Ref h3 g mda show ?thesis
                    by (simp add: assemble_store_def)
                next
                  case h4: (Inr h4)
                  have "slot_from (length h0) (Imm (Str ?name))" by (simp add: slot_from_def)
                  with k3 mda' have k4: "keeps h0 h4" using h4 by (rule keeps_setitem)
                  from r Some Inr sv Cons p h2 Ref h3 g mda h4
                  have "del_sources_store (detector_sources det) train_data h4 = (r, h')"
                    by (simp add: assemble_store_def)
                  with k4 a show ?thesis by (rule keeps_del_sources_store)
                qed
              qed
            qed
          qed
        qed
      qed
    qed
  qed
qed

lemma keeps_pump_store:
  "keeps h0 h \<Longrightarrow> pump_store stack det trains h fed_frames = (h', fed', err) \<Longrightarrow> keeps h0 h'"
proof (induction trains arbitrary: h fed_frames)
  case Nil
  then show ?case by simp
next
  case (Cons t trains)
  obtain tid file_frame where t: "t = (tid, file_frame)" by (cases t)
  obtain train_data h1 where nf: "new_frame file_frame h = (train_data, h1)"
    by (cases "new_frame file_frame h")
  from keeps_new_frame [OF Cons.prems(1) nf] have k1: "keeps h0 h1"
    and a: "length h0 \<le> train_data" by simp_all
  show ?case
  proof (cases "get_dict h1 train_data = Some []")
    case True
    with Cons.prems(2) t nf have "pump_store stack det trains h1 fed_frames = (h', fed', err)"
      by simp
    with k1 show ?thesis by (rule Cons.IH)
  next
    case False
    show ?thesis
    proof (cases det)
      case None
      with Cons.prems(2) t nf False
      have "pump_store stack det trains h1 (fed_frames @ [train_data]) = (h', fed', err)"
        by simp
      with k1 show ?thesis by (rule Cons.IH)
    next
      case (Some d)
      obtain r h2 where as: "assemble_store stack d train_data h1 = (r, h2)"
        by (cases "assemble_store stack d train_data h1")
      from k1 a as have k2: "keeps h0 h2" by (rule keeps_assemble_store)
      show ?thesis
      proof (cases r)
        case None
        with Cons.prems(2) t nf False Some as
        have "pump_store stack det trains h2 (fed_frames @ [train_data]) = (h', fed', err)"
          by simp
        with k2 show ?thesis by (rule Cons.IH)
      next
        case (Some e)
        with Cons.prems(2) t nf False \<open>det = Some d\<close> as have "h' = h2" by simp
        with k2 show ?thesis by simp
      qed
    qed
  qed
qed

text \<open>
  C4.  Whatever the store holds when the streaming loop starts, the records and buffers of
  the frame source among them, is in the store unchanged when the loop ends, by itself or
  by an exception: the entries that the assembly deletes, and everything else it writes,
  are entries of the objects that \<^verbatim>\<open>data.trains()\<close> has built for the step at hand (the
  frame, the record of its first module, that record's \<^verbatim>\<open>metadata\<close>), and the stacked
  array is a new object.
\<close>

theorem assembly_writes_new_objects_only:
  assumes "pump_store stack det trains h0 fed_frames = (h', fed', err)"
  shows "length h0 \<le> length h' \<and> take (length h0) h' = h0"
proof -
  from keeps_refl assms have k: "keeps h0 h'" by (rule keeps_pump_store)
  then have "length h0 \<le> length h'" by (rule keeps_length)
  moreover from k have "take (length h0) h' = h0" by (simp add: keeps_def)
  ultimately show ?thesis ..
qed


theorem assembly_writes_new_objects_only_witness:
  "pump_store stack_store (Some DET) run_one_train cached_store [] =
     (store_after_one_train, [13], None) \<and>
   length cached_store \<le> length store_after_one_train \<and>
   take (length cached_store) store_after_one_train = cached_store \<and>
   read_frame cached_store 6 = Some frame_module0_first \<and>
   read_frame store_after_one_train 6 = Some frame_module0_first \<and>
   map_option (\<lambda>train_data. [train_data]) (read_frame store_after_one_train 13) =
     Some (fed (fst (pump stack_detector_data (Some DET) run_one_train
       server0)))"
proof -
  have h1: "pump_store stack_store (Some DET) run_one_train cached_store [] =
     (store_after_one_train, [13], None)"
    by code_simp
  note unchanged = assembly_writes_new_objects_only [OF h1]
  have h2: "read_frame cached_store 6 = Some frame_module0_first"
    by code_simp
  have h3: "read_frame store_after_one_train 6 = Some frame_module0_first"
    by code_simp
  have h4: "map_option (\<lambda>train_data. [train_data]) (read_frame store_after_one_train 13) =
     Some (fed (fst (pump stack_detector_data (Some DET) run_one_train
       server0)))"
    by code_simp
  from h1 unchanged [THEN conjunct1] unchanged [THEN conjunct2] h2 h3 h4 show ?thesis
    by (intro conjI)
qed

end
